theory Spec2Isabelle
  imports Complex_Main
begin

section \<open>Data model (app/models.py)\<close>

text \<open>
  Each SQL table of \<^verbatim>\<open>app/models.py\<close> is the list of its rows, in the order in which
  an unordered \<^verbatim>\<open>query(...).all()\<close> returns them. Instants (\<^verbatim>\<open>datetime\<close>) are
  seconds on one clock, as integers; \<^verbatim>\<open>Numeric\<close> columns are rationals. The store is
  the default engine of \<^verbatim>\<open>app/config.py\<close> (\<^verbatim>\<open>sqlite\<close>): it enforces primary keys and the
  declared \<^verbatim>\<open>UniqueConstraint\<close>, it hands out a primary key larger than every key in
  use, and it does not act on the foreign-key clauses. The columns are taken as set
  (the nullable ones too), except \<open>user_id\<close> and \<open>expires_at\<close> of a reservation.
\<close>

record seat =
  seat_id :: int
  seat_auditorium_id :: int
  row_label :: string
  seat_number :: int
  seat_type :: string
  price_modifier :: rat

record showtime =
  showtime_id :: int
  movie_id :: int
  auditorium_id :: int
  starts_at :: int
  ends_at :: int
  base_price :: rat

record reservation =
  reservation_id :: int
  user_id :: "int option"
  res_showtime_id :: int
  res_status :: string
  total_price :: rat
  expires_at :: "int option"

record booked_seat =
  booked_id :: int
  bs_showtime_id :: int
  bs_seat_id :: int
  bs_reservation_id :: int

text \<open>
  An entry of the Redis key space. The key \<^verbatim>\<open>f'hold:{showtime_id}:{sid}'\<close> is kept as
  the pair of integers it is formatted from (the format is one-to-one on pairs of
  integers, and the pattern \<^verbatim>\<open>f'hold:{showtime_id}:*'\<close> matches exactly the keys with
  that first component); the value, the decimal string of a reservation id, is kept as
  that id; \<open>hold_expires\<close> is the instant at which the time-to-live of the key ends.
  The server drops a key once the clock is past that instant; at the instant itself the
  key is still returned.
\<close>

record hold_entry =
  hold_showtime :: int
  hold_seat :: int
  hold_value :: int
  hold_expires :: int

text \<open>
  The two stores. \<open>redis_client\<close> is \<open>None\<close> when the connection attempt of
  \<^verbatim>\<open>app/redis_client.py\<close> failed (``Running without Redis cache'').
\<close>

record state =
  seats :: "seat list"
  showtimes :: "showtime list"
  reservations :: "reservation list"
  booked_seats :: "booked_seat list"
  redis_client :: "hold_entry list option"

text \<open>The failures of the three core operations, each an \<^verbatim>\<open>HTTPException\<close> of app/main.py.\<close>

datatype error =
    InvalidSeatSelection     \<comment> \<open>400, 'Invalid seat selection'\<close>
  | SeatsAlreadyBooked       \<comment> \<open>409, 'Some seats already booked'\<close>
  | SeatsAlreadyHeld         \<comment> \<open>409, 'Some seats are held'\<close>
  | ReservationNotFound      \<comment> \<open>404, 'Reservation not found or not in held state'\<close>
  | HoldExpired              \<comment> \<open>400, 'Hold expired or no seats held'\<close>
  | SeatConflict             \<comment> \<open>409, 'Seat already booked by someone else'\<close>

fun status_code :: "error \<Rightarrow> int" where
  "status_code InvalidSeatSelection = 400"
| "status_code SeatsAlreadyBooked = 409"
| "status_code SeatsAlreadyHeld = 409"
| "status_code ReservationNotFound = 404"
| "status_code HoldExpired = 400"
| "status_code SeatConflict = 409"

fun detail :: "error \<Rightarrow> string" where
  "detail InvalidSeatSelection = ''Invalid seat selection''"
| "detail SeatsAlreadyBooked = ''Some seats already booked''"
| "detail SeatsAlreadyHeld = ''Some seats are held''"
| "detail ReservationNotFound = ''Reservation not found or not in held state''"
| "detail HoldExpired = ''Hold expired or no seats held''"
| "detail SeatConflict = ''Seat already booked by someone else''"

definition HOLD_TTL_SECONDS :: int where
  "HOLD_TTL_SECONDS = 600"

text \<open>
  The primary key the store gives a new row (\<^verbatim>\<open>primary_key=True\<close> on an \<^verbatim>\<open>Integer\<close>
  column): one more than the largest in use.
\<close>

definition next_id :: "int list \<Rightarrow> int" where
  "next_id ids = fold max ids 0 + 1"

section \<open>The Redis commands used (app/redis_client.py, decode_responses=True)\<close>

definition hold_key :: "hold_entry \<Rightarrow> int \<times> int" where
  "hold_key e = (hold_showtime e, hold_seat e)"

definition live :: "int \<Rightarrow> hold_entry \<Rightarrow> bool" where
  "live now e \<longleftrightarrow> now \<le> hold_expires e"

text \<open>\<^verbatim>\<open>KEYS hold:{showtime_id}:*\<close>: every unexpired key of the showtime, each once.\<close>

definition redis_keys :: "hold_entry list \<Rightarrow> int \<Rightarrow> int \<Rightarrow> (int \<times> int) list" where
  "redis_keys r now t = remdups (map hold_key (filter (\<lambda>e. live now e \<and> hold_showtime e = t) r))"

text \<open>\<^verbatim>\<open>GET key\<close>: the value of the key if it is there and unexpired.\<close>

definition redis_get :: "hold_entry list \<Rightarrow> int \<Rightarrow> int \<times> int \<Rightarrow> int option" where
  "redis_get r now k = map_option hold_value (find (\<lambda>e. hold_key e = k \<and> live now e) r)"

text \<open>\<^verbatim>\<open>SETEX key ttl value\<close>: replaces whatever the key held.\<close>

definition redis_setex :: "hold_entry list \<Rightarrow> int \<Rightarrow> int \<times> int \<Rightarrow> int \<Rightarrow> int \<Rightarrow> hold_entry list" where
  "redis_setex r now k ttl v =
     \<lparr>hold_showtime = fst k, hold_seat = snd k, hold_value = v, hold_expires = now + ttl\<rparr>
       # filter (\<lambda>e. hold_key e \<noteq> k) r"

text \<open>\<^verbatim>\<open>DEL key\<close>.\<close>

definition redis_delete :: "hold_entry list \<Rightarrow> int \<times> int \<Rightarrow> hold_entry list" where
  "redis_delete r k = filter (\<lambda>e. hold_key e \<noteq> k) r"

section \<open>Availability: get_seats (app/main.py)\<close>

record seat_status_out =
  out_id :: int
  out_row_label :: string
  out_seat_number :: int
  out_seat_type :: string
  out_status :: string

definition booked_ids :: "state \<Rightarrow> int \<Rightarrow> int set" where
  "booked_ids s t = set (map bs_seat_id (filter (\<lambda>b. bs_showtime_id b = t) (booked_seats s)))"

definition held_ids :: "state \<Rightarrow> int \<Rightarrow> int \<Rightarrow> int set" where
  "held_ids s now t =
     (case redis_client s of
        None \<Rightarrow> {}
      | Some r \<Rightarrow> set (map snd (redis_keys r now t)))"

definition seat_status :: "state \<Rightarrow> int \<Rightarrow> int \<Rightarrow> seat \<Rightarrow> seat_status_out" where
  "seat_status s now t x =
     \<lparr>out_id = seat_id x, out_row_label = row_label x, out_seat_number = seat_number x,
      out_seat_type = seat_type x,
      out_status = (if seat_id x \<in> booked_ids s t then ''booked''
                    else if seat_id x \<in> held_ids s now t then ''held''
                    else ''available'')\<rparr>"

text \<open>
  \<open>get_seats s now showtime_id\<close>: the response and the state after the call. The rows
  read are those of \<^verbatim>\<open>db.query(models.Seat).all()\<close>: the whole seat table.
\<close>

definition get_seats :: "state \<Rightarrow> int \<Rightarrow> int \<Rightarrow> seat_status_out list \<times> state" where
  "get_seats s now t = (map (seat_status s now t) (seats s), s)"

section \<open>Holding seats: hold_seats (app/main.py)\<close>

text \<open>The loop \<^verbatim>\<open>for sid in seat_ids: if redis_client.get(...): raise\<close>.\<close>

fun any_held :: "hold_entry list \<Rightarrow> int \<Rightarrow> int \<Rightarrow> int list \<Rightarrow> bool" where
  "any_held r now t [] = False"
| "any_held r now t (sid # sids) =
     (if redis_get r now (t, sid) \<noteq> None then True else any_held r now t sids)"

text \<open>The loop \<^verbatim>\<open>for sid in seat_ids: redis_client.setex(...)\<close>.\<close>

fun place_holds :: "hold_entry list \<Rightarrow> int \<Rightarrow> int \<Rightarrow> int \<Rightarrow> int list \<Rightarrow> hold_entry list" where
  "place_holds r now t rid [] = r"
| "place_holds r now t rid (sid # sids) =
     place_holds (redis_setex r now (t, sid) HOLD_TTL_SECONDS rid) now t rid sids"

definition new_reservation :: "state \<Rightarrow> int \<Rightarrow> int \<Rightarrow> reservation" where
  "new_reservation s now t =
     \<lparr>reservation_id = next_id (map reservation_id (reservations s)), user_id = None,
      res_showtime_id = t, res_status = ''held'', total_price = 0,
      expires_at = Some (now + HOLD_TTL_SECONDS)\<rparr>"

text \<open>
  The writes of a successful call, in the order of the source: the reservation row is
  added and committed, then, if there is a Redis client, one key per seat id is set.
\<close>

definition hold_writes :: "state \<Rightarrow> int \<Rightarrow> int \<Rightarrow> int list \<Rightarrow> state" where
  "hold_writes s now t seat_ids =
     (let res = new_reservation s now t;
          s1 = s\<lparr>reservations := reservations s @ [res]\<rparr>
      in case redis_client s1 of
           None \<Rightarrow> s1
         | Some r \<Rightarrow>
             s1\<lparr>redis_client := Some (place_holds r now t (reservation_id res) seat_ids)\<rparr>)"

text \<open>
  \<open>hold_seats s now showtime_id seat_ids\<close>: on success the reservation id and its
  \<open>expires_at\<close>, and the state after the call.
\<close>

definition hold_seats :: "state \<Rightarrow> int \<Rightarrow> int \<Rightarrow> int list \<Rightarrow> (error + int \<times> int) \<times> state" where
  "hold_seats s now t seat_ids =
     (if length (filter (\<lambda>x. seat_id x \<in> set seat_ids) (seats s)) \<noteq> length seat_ids
      then (Inl InvalidSeatSelection, s)
      else if filter (\<lambda>b. bs_showtime_id b = t \<and> bs_seat_id b \<in> set seat_ids) (booked_seats s) \<noteq> []
      then (Inl SeatsAlreadyBooked, s)
      else if (case redis_client s of None \<Rightarrow> False | Some r \<Rightarrow> any_held r now t seat_ids)
      then (Inl SeatsAlreadyHeld, s)
      else (Inr (reservation_id (new_reservation s now t), now + HOLD_TTL_SECONDS),
            hold_writes s now t seat_ids))"

section \<open>Confirming a reservation: confirm_reservation (app/main.py)\<close>

text \<open>
  The held seats of a reservation, read from Redis: the keys of the reservation's
  showtime whose value is the reservation id.
\<close>

definition held_seats :: "state \<Rightarrow> int \<Rightarrow> int \<Rightarrow> int \<Rightarrow> int list" where
  "held_seats s now t rid =
     (case redis_client s of
        None \<Rightarrow> []
      | Some r \<Rightarrow> map snd (filter (\<lambda>k. redis_get r now k = Some rid) (redis_keys r now t)))"

text \<open>
  The \<^verbatim>\<open>INSERT\<close>s of the transaction, in order, one per \<^verbatim>\<open>db.add(booked)\<close>. The
  constraint \<^verbatim>\<open>uq_showtime_seat\<close> that app/models.py declares on the table refuses a row
  whose (showtime, seat) is already in the table, rows inserted earlier in the same
  transaction included; \<open>None\<close> is the \<^verbatim>\<open>IntegrityError\<close> the session raises.
\<close>

fun insert_booked_seats :: "booked_seat list \<Rightarrow> int \<Rightarrow> int \<Rightarrow> int list \<Rightarrow> booked_seat list option" where
  "insert_booked_seats rows t rid [] = Some rows"
| "insert_booked_seats rows t rid (sid # sids) =
     (if list_ex (\<lambda>b. bs_showtime_id b = t \<and> bs_seat_id b = sid) rows then None
      else insert_booked_seats
             (rows @ [\<lparr>booked_id = next_id (map booked_id rows), bs_showtime_id = t,
                       bs_seat_id = sid, bs_reservation_id = rid\<rparr>]) t rid sids)"

text \<open>
  The body of the \<^verbatim>\<open>try\<close>: the rows, the new status and the commit, all or nothing.
  \<open>None\<close> is the exception; the \<^verbatim>\<open>rollback\<close> leaves the store as it was.
\<close>

definition commit_booking :: "state \<Rightarrow> int \<Rightarrow> int \<Rightarrow> int list \<Rightarrow> state option" where
  "commit_booking s t rid sids =
     (case insert_booked_seats (booked_seats s) t rid sids of
        None \<Rightarrow> None
      | Some rows \<Rightarrow>
          Some (s\<lparr>booked_seats := rows,
                  reservations := map (\<lambda>r. if reservation_id r = rid
                                            then r\<lparr>res_status := ''confirmed''\<rparr> else r)
                                      (reservations s)\<rparr>))"

text \<open>The loop \<^verbatim>\<open>for sid in held_seats: redis_client.delete(...)\<close>.\<close>

fun clear_holds :: "hold_entry list \<Rightarrow> int \<Rightarrow> int list \<Rightarrow> hold_entry list" where
  "clear_holds r t [] = r"
| "clear_holds r t (sid # sids) = clear_holds (redis_delete r (t, sid)) t sids"

definition clear_redis :: "state \<Rightarrow> int \<Rightarrow> int list \<Rightarrow> state" where
  "clear_redis s t sids =
     (case redis_client s of
        None \<Rightarrow> s
      | Some r \<Rightarrow> s\<lparr>redis_client := Some (clear_holds r t sids)\<rparr>)"

text \<open>
  \<open>confirm_reservation s now reservation_id\<close>: on success the status string and the
  reservation id, and the state after the call.
\<close>

definition confirm_reservation :: "state \<Rightarrow> int \<Rightarrow> int \<Rightarrow> (error + string \<times> int) \<times> state" where
  "confirm_reservation s now rid =
     (case find (\<lambda>r. reservation_id r = rid \<and> res_status r = ''held'') (reservations s) of
        None \<Rightarrow> (Inl ReservationNotFound, s)
      | Some res \<Rightarrow>
          let held = held_seats s now (res_showtime_id res) rid in
          if held = [] then (Inl HoldExpired, s)
          else (case commit_booking s (res_showtime_id res) (reservation_id res) held of
                  None \<Rightarrow> (Inl SeatConflict, s)
                | Some s1 \<Rightarrow>
                    (Inr (''confirmed'', reservation_id res),
                     clear_redis s1 (res_showtime_id res) held)))"

section \<open>Showtimes and seats: app/crud.py\<close>

record showtime_in =
  in_movie_id :: int
  in_auditorium_id :: int
  in_starts_at :: int
  in_ends_at :: int
  in_base_price :: rat

definition overlaps :: "showtime_in \<Rightarrow> showtime \<Rightarrow> bool" where
  "overlaps inp x \<longleftrightarrow>
     auditorium_id x = in_auditorium_id inp \<and> starts_at x < in_ends_at inp \<and> ends_at x > in_starts_at inp"

definition create_showtime :: "state \<Rightarrow> showtime_in \<Rightarrow> showtime option \<times> state" where
  "create_showtime s inp =
     (case find (overlaps inp) (showtimes s) of
        Some x \<Rightarrow> (None, s)
      | None \<Rightarrow>
          let st = \<lparr>showtime_id = next_id (map showtime_id (showtimes s)),
                    movie_id = in_movie_id inp, auditorium_id = in_auditorium_id inp,
                    starts_at = in_starts_at inp, ends_at = in_ends_at inp,
                    base_price = in_base_price inp\<rparr>
          in (Some st, s\<lparr>showtimes := showtimes s @ [st]\<rparr>))"

definition get_showtime :: "state \<Rightarrow> int \<Rightarrow> showtime option" where
  "get_showtime s i = find (\<lambda>x. showtime_id x = i) (showtimes s)"

definition update_showtime :: "state \<Rightarrow> int \<Rightarrow> showtime_in \<Rightarrow> showtime option \<times> state" where
  "update_showtime s i inp =
     (case get_showtime s i of
        None \<Rightarrow> (None, s)
      | Some cur \<Rightarrow>
          (case find (\<lambda>x. showtime_id x \<noteq> i \<and> overlaps inp x) (showtimes s) of
             Some x \<Rightarrow> (None, s)
           | None \<Rightarrow>
               let st = cur\<lparr>movie_id := in_movie_id inp, auditorium_id := in_auditorium_id inp,
                            starts_at := in_starts_at inp, ends_at := in_ends_at inp,
                            base_price := in_base_price inp\<rparr>
               in (Some st,
                   s\<lparr>showtimes := map (\<lambda>x. if showtime_id x = i then st else x) (showtimes s)\<rparr>)))"

definition delete_showtime :: "state \<Rightarrow> int \<Rightarrow> showtime option \<times> state" where
  "delete_showtime s i =
     (case get_showtime s i of
        None \<Rightarrow> (None, s)
      | Some cur \<Rightarrow> (Some cur, s\<lparr>showtimes := filter (\<lambda>x. showtime_id x \<noteq> i) (showtimes s)\<rparr>))"

definition get_seat :: "state \<Rightarrow> int \<Rightarrow> seat option" where
  "get_seat s i = find (\<lambda>x. seat_id x = i) (seats s)"

definition delete_seat :: "state \<Rightarrow> int \<Rightarrow> seat option \<times> state" where
  "delete_seat s i =
     (case get_seat s i of
        None \<Rightarrow> (None, s)
      | Some cur \<Rightarrow> (Some cur, s\<lparr>seats := filter (\<lambda>x. seat_id x \<noteq> i) (seats s)\<rparr>))"

section \<open>The system as a transition system\<close>

text \<open>
  One step of the system. The first three rules are whole calls of the core operations,
  the rules on showtimes and seats are the calls of app/crud.py; \<open>step_create_seats\<close>
  stands for \<^verbatim>\<open>create_seat\<close> and \<^verbatim>\<open>create_seats_batch\<close>, which only add seat rows, and
  \<open>step_cascade\<close> for a store that acts on \<^verbatim>\<open>ondelete='CASCADE'\<close> and removes booked
  rows with the row they refer to. The rules \<open>step_commit\<close>, \<open>step_reservation\<close>,
  \<open>step_setex\<close> and \<open>step_delete\<close> are the single store operations of a call: the
  transaction of \<open>confirm_reservation\<close> on seats it read from Redis earlier, the row of
  \<open>hold_seats\<close>, one \<^verbatim>\<open>SETEX\<close> and one \<^verbatim>\<open>DEL\<close>. With them every interleaving of calls that
  run at the same time, each of whose store operations is atomic, is a path of \<open>step\<close>.
\<close>

inductive step :: "state \<Rightarrow> state \<Rightarrow> bool" where
  step_get_seats: "step s (snd (get_seats s now t))"
| step_hold_seats: "step s (snd (hold_seats s now t seat_ids))"
| step_confirm_reservation: "step s (snd (confirm_reservation s now rid))"
| step_commit: "commit_booking s t rid sids = Some s' \<Longrightarrow> step s s'"
| step_reservation: "step s (s\<lparr>reservations := reservations s @ [new_reservation s now t]\<rparr>)"
| step_setex: "redis_client s = Some r \<Longrightarrow> step s (s\<lparr>redis_client := Some (redis_setex r now k ttl v)\<rparr>)"
| step_delete: "redis_client s = Some r \<Longrightarrow> step s (s\<lparr>redis_client := Some (redis_delete r k)\<rparr>)"
| step_create_showtime: "step s (snd (create_showtime s inp))"
| step_update_showtime: "step s (snd (update_showtime s i inp))"
| step_delete_showtime: "step s (snd (delete_showtime s i))"
| step_delete_seat: "step s (snd (delete_seat s i))"
| step_create_seats: "step s (s\<lparr>seats := seats s @ new\<rparr>)"
| step_cascade: "step s (s\<lparr>booked_seats := filter P (booked_seats s)\<rparr>)"

text \<open>The system starts with empty tables, with or without a Redis connection.\<close>

definition initial :: "state \<Rightarrow> bool" where
  "initial s \<longleftrightarrow>
     seats s = [] \<and> showtimes s = [] \<and> reservations s = [] \<and> booked_seats s = [] \<and>
     (redis_client s = None \<or> redis_client s = Some [])"

inductive reachable :: "state \<Rightarrow> bool" where
  reachable_initial: "initial s \<Longrightarrow> reachable s"
| reachable_step: "reachable s \<Longrightarrow> step s s' \<Longrightarrow> reachable s'"

text \<open>
  \<open>calls_before deadline s s'\<close>: from \<open>s\<close>, whole calls of the three core operations,
  each at an instant before \<open>deadline\<close>, lead to \<open>s'\<close>.
\<close>

inductive calls_before :: "int \<Rightarrow> state \<Rightarrow> state \<Rightarrow> bool" for deadline :: int where
  calls_none: "calls_before deadline s s"
| calls_get_seats:
    "calls_before deadline s s' \<Longrightarrow> now < deadline
       \<Longrightarrow> calls_before deadline s (snd (get_seats s' now t))"
| calls_hold_seats:
    "calls_before deadline s s' \<Longrightarrow> now < deadline
       \<Longrightarrow> calls_before deadline s (snd (hold_seats s' now t seat_ids))"
| calls_confirm_reservation:
    "calls_before deadline s s' \<Longrightarrow> now < deadline
       \<Longrightarrow> calls_before deadline s (snd (confirm_reservation s' now rid))"

text \<open>
  A seat is claimed for a showtime until \<open>deadline\<close>: it has a booked row, or its key is
  in Redis and unexpired at every instant before \<open>deadline\<close>.
\<close>

definition claimed :: "state \<Rightarrow> int \<Rightarrow> int \<Rightarrow> int \<Rightarrow> bool" where
  "claimed s deadline t sid \<longleftrightarrow>
     (\<exists>b\<in>set (booked_seats s). bs_showtime_id b = t \<and> bs_seat_id b = sid) \<or>
     (\<exists>r. redis_client s = Some r \<and> (\<forall>now. now < deadline \<longrightarrow> redis_get r now (t, sid) \<noteq> None))"

text \<open>The columns of \<^verbatim>\<open>uq_showtime_seat\<close>.\<close>

definition bkey :: "booked_seat \<Rightarrow> int \<times> int" where
  "bkey = (\<lambda>b. (bs_showtime_id b, bs_seat_id b))"

text \<open>
  The invariant of the showtime table: two showtimes of one auditorium have disjoint
  intervals \<open>[starts_at, ends_at)\<close>.
\<close>

definition no_overlap :: "showtime list \<Rightarrow> bool" where
  "no_overlap xs \<longleftrightarrow>
     (\<forall>a\<in>set xs. \<forall>b\<in>set xs.
        showtime_id a \<noteq> showtime_id b \<and> auditorium_id a = auditorium_id b
          \<longrightarrow> {starts_at a ..< ends_at a} \<inter> {starts_at b ..< ends_at b} = {})"

section \<open>A scenario\<close>

text \<open>
  Three seats, the third in another auditorium than the showtime; seats 1 and 2 are held
  at instant 0 and confirmed at instant 10. \<open>st_race\<close> is a state in which seat 1 is
  booked for reservation 1 while keys of reservation 2 for seats 1 and 2 are in Redis.
\<close>

definition seat_1 :: seat where
  "seat_1 = \<lparr>seat_id = 1, seat_auditorium_id = 1, row_label = ''A'', seat_number = 1,
             seat_type = ''regular'', price_modifier = 0\<rparr>"

definition seat_2 :: seat where
  "seat_2 = \<lparr>seat_id = 2, seat_auditorium_id = 1, row_label = ''A'', seat_number = 2,
             seat_type = ''regular'', price_modifier = 0\<rparr>"

definition seat_3 :: seat where
  "seat_3 = \<lparr>seat_id = 3, seat_auditorium_id = 2, row_label = ''A'', seat_number = 1,
             seat_type = ''regular'', price_modifier = 0\<rparr>"

definition showtime_1 :: showtime where
  "showtime_1 = \<lparr>showtime_id = 1, movie_id = 1, auditorium_id = 1, starts_at = 1000,
                 ends_at = 2000, base_price = 15\<rparr>"

definition showtime_in_1 :: showtime_in where
  "showtime_in_1 = \<lparr>in_movie_id = 1, in_auditorium_id = 1, in_starts_at = 1000,
                    in_ends_at = 2000, in_base_price = 15\<rparr>"

definition showtime_in_2 :: showtime_in where
  "showtime_in_2 = \<lparr>in_movie_id = 2, in_auditorium_id = 1, in_starts_at = 2000,
                    in_ends_at = 3000, in_base_price = 12\<rparr>"

definition showtime_in_3 :: showtime_in where
  "showtime_in_3 = \<lparr>in_movie_id = 3, in_auditorium_id = 1, in_starts_at = 1500,
                    in_ends_at = 2500, in_base_price = 10\<rparr>"

definition st_empty :: state where
  "st_empty = \<lparr>seats = [], showtimes = [], reservations = [], booked_seats = [],
               redis_client = Some []\<rparr>"

definition st_free :: state where
  "st_free = \<lparr>seats = [seat_1, seat_2, seat_3], showtimes = [showtime_1], reservations = [],
              booked_seats = [], redis_client = Some []\<rparr>"

definition st_no_redis :: state where
  "st_no_redis = st_free\<lparr>redis_client := None\<rparr>"

definition st_held :: state where
  "st_held = snd (hold_seats st_free 0 1 [1, 2])"

definition st_booked :: state where
  "st_booked = snd (confirm_reservation st_held 10 1)"

definition st_race :: state where
  "st_race =
     \<lparr>seats = [seat_1, seat_2, seat_3], showtimes = [showtime_1],
      reservations =
        [\<lparr>reservation_id = 1, user_id = None, res_showtime_id = 1, res_status = ''confirmed'',
          total_price = 0, expires_at = Some 600\<rparr>,
         \<lparr>reservation_id = 2, user_id = None, res_showtime_id = 1, res_status = ''held'',
          total_price = 0, expires_at = Some 700\<rparr>],
      booked_seats =
        [\<lparr>booked_id = 1, bs_showtime_id = 1, bs_seat_id = 1, bs_reservation_id = 1\<rparr>],
      redis_client =
        Some [\<lparr>hold_showtime = 1, hold_seat = 1, hold_value = 2, hold_expires = 700\<rparr>,
              \<lparr>hold_showtime = 1, hold_seat = 2, hold_value = 2, hold_expires = 700\<rparr>]\<rparr>"

definition st_two :: state where
  "st_two = snd (create_showtime st_free showtime_in_2)"

section \<open>Primary keys and the seat check\<close>

lemma fold_max_ge: "(a::int) \<le> fold max xs a"
proof (induction xs arbitrary: a)
  case Nil
  then show ?case by simp
next
  case (Cons x xs)
  have "a \<le> max x a" by simp
  also have "\<dots> \<le> fold max xs (max x a)" by (rule Cons.IH)
  finally show ?case by simp
qed

lemma fold_max_mem: "(i::int) \<in> set xs \<Longrightarrow> i \<le> fold max xs a"
proof (induction xs arbitrary: a)
  case Nil
  then show ?case by simp
next
  case (Cons x xs)
  show ?case
  proof (cases "i = x")
    case True
    have "x \<le> max x a" by simp
    also have "\<dots> \<le> fold max xs (max x a)" by (rule fold_max_ge)
    finally show ?thesis using True by simp
  next
    case False
    with Cons show ?thesis by simp
  qed
qed

lemma next_id_fresh: "i \<in> set ids \<Longrightarrow> i < next_id ids"
  using fold_max_mem [of i ids 0] by (simp add: next_id_def)

lemma found_length:
  assumes "distinct (map seat_id xs)"
  shows "length (filter (\<lambda>x. seat_id x \<in> A) xs) = card (A \<inter> seat_id ` set xs)"
proof -
  have d: "distinct (map seat_id (filter (\<lambda>x. seat_id x \<in> A) xs))"
    using assms by (rule distinct_map_filter)
  have "length (filter (\<lambda>x. seat_id x \<in> A) xs) = length (map seat_id (filter (\<lambda>x. seat_id x \<in> A) xs))"
    by simp
  also have "\<dots> = card (set (map seat_id (filter (\<lambda>x. seat_id x \<in> A) xs)))"
    using d by (simp only: distinct_card)
  also have "set (map seat_id (filter (\<lambda>x. seat_id x \<in> A) xs)) = A \<inter> seat_id ` set xs"
    by auto
  finally show ?thesis .
qed

lemma seats_check:
  assumes "distinct (map seat_id xs)"
  shows "length (filter (\<lambda>x. seat_id x \<in> set ids) xs) = length ids
           \<longleftrightarrow> distinct ids \<and> set ids \<subseteq> seat_id ` set xs"
proof
  assume eq: "length (filter (\<lambda>x. seat_id x \<in> set ids) xs) = length ids"
  then have c: "card (set ids \<inter> seat_id ` set xs) = length ids"
    using found_length [OF assms, of "set ids"] by simp
  have le1: "card (set ids \<inter> seat_id ` set xs) \<le> card (set ids)"
    by (rule card_mono) auto
  have le2: "card (set ids) \<le> length ids" by (rule card_length)
  from c le1 le2 have c2: "card (set ids) = length ids" by linarith
  then have "distinct ids" by (rule card_distinct)
  moreover have "set ids \<inter> seat_id ` set xs = set ids"
    using c c2 by (intro card_subset_eq) auto
  ultimately show "distinct ids \<and> set ids \<subseteq> seat_id ` set xs" by auto
next
  assume a: "distinct ids \<and> set ids \<subseteq> seat_id ` set xs"
  then have "set ids \<inter> seat_id ` set xs = set ids" by auto
  then show "length (filter (\<lambda>x. seat_id x \<in> set ids) xs) = length ids"
    using found_length [OF assms, of "set ids"] a by (simp add: distinct_card)
qed

section \<open>Redis and the booked-seat table\<close>

lemma find_filter_imp: "(\<And>x. P x \<Longrightarrow> Q x) \<Longrightarrow> find P (filter Q xs) = find P xs"
  by (induction xs) auto

lemma find_filter_never: "(\<And>x. P x \<Longrightarrow> \<not> Q x) \<Longrightarrow> find P (filter Q xs) = None"
  by (induction xs) auto

lemma redis_get_setex:
  "redis_get (redis_setex r now k ttl v) now' k' =
     (if k' = k then (if now' \<le> now + ttl then Some v else None) else redis_get r now' k')"
proof (cases "k' = k")
  case True
  have "find (\<lambda>e. hold_key e = k \<and> live now' e) (filter (\<lambda>e. hold_key e \<noteq> k) r) = None"
    by (rule find_filter_never) simp
  then show ?thesis using True
    by (simp add: redis_get_def redis_setex_def hold_key_def live_def)
next
  case False
  have "find (\<lambda>e. hold_key e = k' \<and> live now' e) (filter (\<lambda>e. hold_key e \<noteq> k) r)
          = find (\<lambda>e. hold_key e = k' \<and> live now' e) r"
    by (rule find_filter_imp) (use False in auto)
  then show ?thesis using False
    by (auto simp add: redis_get_def redis_setex_def hold_key_def)
qed

lemma redis_get_delete:
  "redis_get (redis_delete r k) now' k' = (if k' = k then None else redis_get r now' k')"
proof (cases "k' = k")
  case True
  have "find (\<lambda>e. hold_key e = k \<and> live now' e) (filter (\<lambda>e. hold_key e \<noteq> k) r) = None"
    by (rule find_filter_never) simp
  then show ?thesis using True by (simp add: redis_get_def redis_delete_def)
next
  case False
  have "find (\<lambda>e. hold_key e = k' \<and> live now' e) (filter (\<lambda>e. hold_key e \<noteq> k) r)
          = find (\<lambda>e. hold_key e = k' \<and> live now' e) r"
    by (rule find_filter_imp) (use False in auto)
  then show ?thesis using False by (simp add: redis_get_def redis_delete_def)
qed

lemma redis_get_place_holds:
  "redis_get (place_holds r now t rid sids) now' k =
     (if k \<in> Pair t ` set sids then (if now' \<le> now + HOLD_TTL_SECONDS then Some rid else None)
      else redis_get r now' k)"
proof (induction sids arbitrary: r)
  case Nil
  then show ?case by simp
next
  case (Cons sid sids)
  show ?case
    by (auto simp add: Cons.IH redis_get_setex)
qed

lemma redis_get_clear_holds:
  "redis_get (clear_holds r t sids) now' k =
     (if k \<in> Pair t ` set sids then None else redis_get r now' k)"
proof (induction sids arbitrary: r)
  case Nil
  then show ?case by simp
next
  case (Cons sid sids)
  show ?case
    by (auto simp add: Cons.IH redis_get_delete)
qed

lemma any_held_iff:
  "any_held r now t sids \<longleftrightarrow> (\<exists>sid\<in>set sids. redis_get r now (t, sid) \<noteq> None)"
  by (induction sids) auto

lemma redis_get_Some_iff:
  "redis_get r now k \<noteq> None \<longleftrightarrow> (\<exists>e\<in>set r. hold_key e = k \<and> live now e)"
  by (auto simp add: redis_get_def find_None_iff)

lemma redis_keys_iff:
  "k \<in> set (redis_keys r now t) \<longleftrightarrow> fst k = t \<and> redis_get r now k \<noteq> None"
proof -
  have "k \<in> set (redis_keys r now t) \<longleftrightarrow> (\<exists>e\<in>set r. hold_key e = k \<and> live now e \<and> hold_showtime e = t)"
    by (auto simp add: redis_keys_def)
  also have "\<dots> \<longleftrightarrow> fst k = t \<and> (\<exists>e\<in>set r. hold_key e = k \<and> live now e)"
    by (auto simp add: hold_key_def)
  finally show ?thesis unfolding redis_get_Some_iff .
qed

lemma held_ids_iff:
  "sid \<in> held_ids s now t \<longleftrightarrow> (\<exists>r. redis_client s = Some r \<and> redis_get r now (t, sid) \<noteq> None)"
  by (cases "redis_client s") (force simp add: held_ids_def redis_keys_iff)+

lemma set_held_seats:
  "sid \<in> set (held_seats s now t rid) \<longleftrightarrow>
     (\<exists>r. redis_client s = Some r \<and> redis_get r now (t, sid) = Some rid)"
  by (cases "redis_client s") (force simp add: held_seats_def redis_keys_iff)+

lemma distinct_held_seats: "distinct (held_seats s now t rid)"
proof (cases "redis_client s")
  case None
  then show ?thesis by (simp add: held_seats_def)
next
  case (Some r)
  have "inj_on snd (set (filter (\<lambda>k. redis_get r now k = Some rid) (redis_keys r now t)))"
    by (rule inj_onI) (auto simp add: redis_keys_iff prod_eq_iff)
  moreover have "distinct (filter (\<lambda>k. redis_get r now k = Some rid) (redis_keys r now t))"
    by (simp add: redis_keys_def)
  ultimately show ?thesis using Some
    by (simp add: held_seats_def distinct_map)
qed

lemma insert_booked_seats_None:
  "insert_booked_seats rows t rid sids = None \<longleftrightarrow>
     \<not> distinct sids \<or> (\<exists>sid\<in>set sids. \<exists>b\<in>set rows. bs_showtime_id b = t \<and> bs_seat_id b = sid)"
proof (induction sids arbitrary: rows)
  case Nil
  then show ?case by simp
next
  case (Cons sid sids)
  show ?case
    by (simp add: Cons.IH list_ex_iff) blast
qed

lemma insert_booked_seats_rows:
  "insert_booked_seats rows t rid sids = Some rows' \<Longrightarrow>
     \<exists>new. rows' = rows @ new \<and>
       map (\<lambda>b. (bs_showtime_id b, bs_seat_id b, bs_reservation_id b)) new
         = map (\<lambda>sid. (t, sid, rid)) sids"
proof (induction sids arbitrary: rows)
  case Nil
  then show ?case by simp
next
  case (Cons sid sids)
  let ?b = "\<lparr>booked_id = next_id (map booked_id rows), bs_showtime_id = t,
              bs_seat_id = sid, bs_reservation_id = rid\<rparr>"
  from Cons.prems have ins: "insert_booked_seats (rows @ [?b]) t rid sids = Some rows'"
    by (simp split: if_splits)
  from Cons.IH [OF ins] obtain new where
    r: "rows' = (rows @ [?b]) @ new" and
    m: "map (\<lambda>b. (bs_showtime_id b, bs_seat_id b, bs_reservation_id b)) new
           = map (\<lambda>sid. (t, sid, rid)) sids"
    by blast
  from r have "rows' = rows @ (?b # new)" by simp
  moreover from m have "map (\<lambda>b. (bs_showtime_id b, bs_seat_id b, bs_reservation_id b)) (?b # new)
           = map (\<lambda>sid. (t, sid, rid)) (sid # sids)" by simp
  ultimately show ?case by blast
qed

lemma insert_booked_seats_distinct:
  "insert_booked_seats rows t rid sids = Some rows' \<Longrightarrow> distinct (map bkey rows)
     \<Longrightarrow> distinct (map bkey rows')"
proof (induction sids arbitrary: rows)
  case Nil
  then show ?case by simp
next
  case (Cons sid sids)
  let ?b = "\<lparr>booked_id = next_id (map booked_id rows), bs_showtime_id = t,
              bs_seat_id = sid, bs_reservation_id = rid\<rparr>"
  from Cons.prems have free: "\<not> list_ex (\<lambda>b. bs_showtime_id b = t \<and> bs_seat_id b = sid) rows"
    and ins: "insert_booked_seats (rows @ [?b]) t rid sids = Some rows'"
    by (simp_all split: if_splits)
  from free Cons.prems(2) have "distinct (map bkey (rows @ [?b]))"
    by (auto simp add: list_ex_iff bkey_def)
  with ins show ?case by (rule Cons.IH)
qed

section \<open>Properties of the core operations\<close>

lemma find_held_None:
  "find (\<lambda>r. reservation_id r = rid \<and> res_status r = ''held'') rs = None \<longleftrightarrow>
     \<not> (\<exists>res\<in>set rs. reservation_id res = rid \<and> res_status res = ''held'')"
  by (auto simp add: find_None_iff)

lemma find_held_Some:
  assumes "distinct (map reservation_id rs)" "res \<in> set rs" "reservation_id res = rid"
    "res_status res = ''held''"
  shows "find (\<lambda>r. reservation_id r = rid \<and> res_status r = ''held'') rs = Some res"
  using assms
proof (induction rs)
  case Nil
  then show ?case by simp
next
  case (Cons a rs)
  show ?case
  proof (cases "a = res")
    case True
    with Cons.prems show ?thesis by simp
  next
    case False
    with Cons.prems have "res \<in> set rs" by simp
    with Cons.prems have "reservation_id a \<noteq> rid" by force
    moreover have "find (\<lambda>r. reservation_id r = rid \<and> res_status r = ''held'') rs = Some res"
      using Cons.IH Cons.prems \<open>res \<in> set rs\<close> by simp
    ultimately show ?thesis by simp
  qed
qed

lemma find_held_SomeD:
  "find (\<lambda>r. reservation_id r = rid \<and> res_status r = ''held'') rs = Some res \<Longrightarrow>
     res \<in> set rs \<and> reservation_id res = rid \<and> res_status res = ''held''"
  by (induction rs) (auto split: if_splits)

lemma held_seats_empty:
  "held_seats s now t rid = [] \<longleftrightarrow>
     {sid. \<exists>r. redis_client s = Some r \<and> redis_get r now (t, sid) = Some rid} = {}"
proof -
  have "held_seats s now t rid = [] \<longleftrightarrow> set (held_seats s now t rid) = {}" by simp
  also have "\<dots> \<longleftrightarrow> (\<forall>sid. sid \<notin> set (held_seats s now t rid))" by auto
  also have "\<dots> \<longleftrightarrow> {sid. \<exists>r. redis_client s = Some r \<and> redis_get r now (t, sid) = Some rid} = {}"
    unfolding set_held_seats by auto
  finally show ?thesis .
qed

text \<open>
  Claim C10. A request that lists a seat id more than once fails with
  \<open>InvalidSeatSelection\<close>, also when every id names a seat: the rows fetched are counted
  against the length of the list. The state is returned as it was, so no reservation
  row and no hold key is created. The seat ids are a primary key.
\<close>

theorem hold_seats_duplicate_ids:
  assumes "distinct (map seat_id (seats s))" and "\<not> distinct seat_ids"
  shows "hold_seats s now t seat_ids = (Inl InvalidSeatSelection, s)"
proof -
  have "length (filter (\<lambda>x. seat_id x \<in> set seat_ids) (seats s)) \<noteq> length seat_ids"
    using seats_check [OF assms(1), of seat_ids] assms(2) by blast
  then show ?thesis by (simp add: hold_seats_def)
qed

text \<open>
  Claim C3. Every entry of the response of \<open>get_seats\<close> has status \<open>booked\<close> if a
  booked row of the showtime names its seat, whether or not a key for the seat is in
  Redis; otherwise \<open>held\<close> if Redis has an unexpired key for the showtime and the seat;
  otherwise \<open>available\<close>. The call leaves both stores as they were.
\<close>

theorem get_seats_status:
  "snd (get_seats s now t) = s \<and>
   (\<forall>out\<in>set (fst (get_seats s now t)).
      out_status out =
        (if \<exists>b\<in>set (booked_seats s). bs_showtime_id b = t \<and> bs_seat_id b = out_id out
         then ''booked''
         else if \<exists>r. redis_client s = Some r \<and> redis_get r now (t, out_id out) \<noteq> None
         then ''held''
         else ''available''))"
proof -
  have b: "sid \<in> booked_ids s t \<longleftrightarrow> (\<exists>b\<in>set (booked_seats s). bs_showtime_id b = t \<and> bs_seat_id b = sid)"
    for sid by (auto simp add: booked_ids_def)
  show ?thesis
    unfolding get_seats_def seat_status_def b held_ids_iff by simp
qed

text \<open>
  Claim C6. \<open>confirm_reservation\<close> fails with \<open>ReservationNotFound\<close> exactly when no
  reservation has the id and status \<open>held\<close>. Otherwise the held seats are the seats whose
  key, under the showtime of the reservation, has the reservation id as its value, and
  the call fails with \<open>HoldExpired\<close> exactly when there is none. In both cases the
  state is returned as it was: no booked row is written and no status changes.
\<close>

theorem confirm_reservation_failures:
  assumes pk: "distinct (map reservation_id (reservations s))"
  shows
    "(fst (confirm_reservation s now rid) = Inl ReservationNotFound \<longleftrightarrow>
        \<not> (\<exists>res\<in>set (reservations s). reservation_id res = rid \<and> res_status res = ''held'')) \<and>
     (fst (confirm_reservation s now rid) = Inl HoldExpired \<longleftrightarrow>
        (\<exists>res\<in>set (reservations s). reservation_id res = rid \<and> res_status res = ''held'' \<and>
           {sid. \<exists>r. redis_client s = Some r \<and>
                   redis_get r now (res_showtime_id res, sid) = Some rid} = {})) \<and>
     (fst (confirm_reservation s now rid) = Inl ReservationNotFound \<or>
      fst (confirm_reservation s now rid) = Inl HoldExpired
        \<longrightarrow> snd (confirm_reservation s now rid) = s)"
proof (cases "find (\<lambda>r. reservation_id r = rid \<and> res_status r = ''held'') (reservations s)")
  case None
  then have "confirm_reservation s now rid = (Inl ReservationNotFound, s)"
    by (simp add: confirm_reservation_def)
  moreover from None have
    "\<not> (\<exists>res\<in>set (reservations s). reservation_id res = rid \<and> res_status res = ''held'')"
    using find_held_None [of rid "reservations s"] by blast
  ultimately show ?thesis by auto
next
  case (Some res)
  from find_held_SomeD [OF Some] have res: "res \<in> set (reservations s)" "reservation_id res = rid"
    "res_status res = ''held''" by simp_all
  have uniq: "res' = res" if "res' \<in> set (reservations s)" "reservation_id res' = rid" for res'
    using pk that res by (metis distinct_map inj_onD)
  let ?held = "held_seats s now (res_showtime_id res) rid"
  show ?thesis
  proof (cases "?held = []")
    case True
    with Some have "confirm_reservation s now rid = (Inl HoldExpired, s)"
      by (simp add: confirm_reservation_def Let_def)
    moreover from True have
      "{sid. \<exists>r. redis_client s = Some r \<and> redis_get r now (res_showtime_id res, sid) = Some rid} = {}"
      using held_seats_empty [of s now "res_showtime_id res" rid] by blast
    ultimately show ?thesis using res by auto
  next
    case False
    with Some have "fst (confirm_reservation s now rid) \<noteq> Inl ReservationNotFound"
      "fst (confirm_reservation s now rid) \<noteq> Inl HoldExpired"
      by (simp_all add: confirm_reservation_def Let_def split: option.splits)
    moreover from False have
      "{sid. \<exists>r. redis_client s = Some r \<and> redis_get r now (res_showtime_id res, sid) = Some rid} \<noteq> {}"
      using held_seats_empty [of s now "res_showtime_id res" rid] by blast
    ultimately show ?thesis using res uniq by blast
  qed
qed

lemma booked_check:
  "filter (\<lambda>b. bs_showtime_id b = t \<and> bs_seat_id b \<in> set ids) bs \<noteq> [] \<longleftrightarrow>
     (\<exists>sid\<in>set ids. \<exists>b\<in>set bs. bs_showtime_id b = t \<and> bs_seat_id b = sid)"
  by (auto simp add: filter_empty_conv)

lemma held_check:
  "(case rc of None \<Rightarrow> False | Some r \<Rightarrow> any_held r now t ids) \<longleftrightarrow>
     (\<exists>r. rc = Some r \<and> (\<exists>sid\<in>set ids. redis_get r now (t, sid) \<noteq> None))"
  by (cases rc) (simp_all add: any_held_iff)

lemma hold_seats_alt:
  assumes pk: "distinct (map seat_id (seats s))"
  shows "hold_seats s now t ids =
     (if \<not> (distinct ids \<and> set ids \<subseteq> seat_id ` set (seats s)) then (Inl InvalidSeatSelection, s)
      else if \<exists>sid\<in>set ids. \<exists>b\<in>set (booked_seats s). bs_showtime_id b = t \<and> bs_seat_id b = sid
      then (Inl SeatsAlreadyBooked, s)
      else if \<exists>r. redis_client s = Some r \<and> (\<exists>sid\<in>set ids. redis_get r now (t, sid) \<noteq> None)
      then (Inl SeatsAlreadyHeld, s)
      else (Inr (reservation_id (new_reservation s now t), now + HOLD_TTL_SECONDS),
            hold_writes s now t ids))"
  unfolding hold_seats_def booked_check held_check seats_check [OF pk]
  by auto

lemma hold_seats_result:
  "hold_seats s now t ids = (Inl InvalidSeatSelection, s) \<or>
   hold_seats s now t ids = (Inl SeatsAlreadyBooked, s) \<or>
   hold_seats s now t ids = (Inl SeatsAlreadyHeld, s) \<or>
   hold_seats s now t ids =
     (Inr (reservation_id (new_reservation s now t), now + HOLD_TTL_SECONDS), hold_writes s now t ids)"
  unfolding hold_seats_def by simp

lemma new_reservation_fresh:
  "reservation_id (new_reservation s now t) \<notin> reservation_id ` set (reservations s)"
proof
  assume "reservation_id (new_reservation s now t) \<in> reservation_id ` set (reservations s)"
  then have "next_id (map reservation_id (reservations s)) \<in> set (map reservation_id (reservations s))"
    by (simp add: new_reservation_def)
  from next_id_fresh [OF this] show False by simp
qed

lemma hold_writes_simps:
  "reservations (hold_writes s now t ids) = reservations s @ [new_reservation s now t]"
  "booked_seats (hold_writes s now t ids) = booked_seats s"
  "seats (hold_writes s now t ids) = seats s"
  "showtimes (hold_writes s now t ids) = showtimes s"
  "redis_client (hold_writes s now t ids) =
     map_option (\<lambda>r. place_holds r now t (reservation_id (new_reservation s now t)) ids) (redis_client s)"
  by (cases "redis_client s"; simp add: hold_writes_def Let_def)+

text \<open>
  Claim C5, amended. \<open>hold_seats\<close> succeeds exactly when its three checks pass: the ids
  are pairwise distinct and name seats, none is booked for the showtime, none has an
  unexpired key. A successful call adds exactly one reservation row, with a fresh id,
  status \<open>held\<close> and \<open>expires_at = now + HOLD_TTL_SECONDS\<close>, and returns that id and
  expiry; the other tables are unchanged. With a Redis client, afterwards the key of
  every requested seat holds the new reservation id up to the instant
  \<open>now + HOLD_TTL_SECONDS\<close> and not after it, and every other key is as before; without
  one, no key is written. A failed call returns
  the state as it was.
\<close>

theorem hold_seats_success:
  assumes pk: "distinct (map seat_id (seats s))"
  shows
    "((\<exists>v. fst (hold_seats s now t seat_ids) = Inr v) \<longleftrightarrow>
        distinct seat_ids \<and> set seat_ids \<subseteq> seat_id ` set (seats s) \<and>
        \<not> (\<exists>sid\<in>set seat_ids. \<exists>b\<in>set (booked_seats s). bs_showtime_id b = t \<and> bs_seat_id b = sid) \<and>
        \<not> (\<exists>r. redis_client s = Some r \<and> (\<exists>sid\<in>set seat_ids. redis_get r now (t, sid) \<noteq> None))) \<and>
     (\<forall>rid expiry s'. hold_seats s now t seat_ids = (Inr (rid, expiry), s') \<longrightarrow>
        expiry = now + HOLD_TTL_SECONDS \<and>
        rid \<notin> reservation_id ` set (reservations s) \<and>
        reservations s' = reservations s @
          [\<lparr>reservation_id = rid, user_id = None, res_showtime_id = t, res_status = ''held'',
            total_price = 0, expires_at = Some (now + HOLD_TTL_SECONDS)\<rparr>] \<and>
        booked_seats s' = booked_seats s \<and> seats s' = seats s \<and> showtimes s' = showtimes s \<and>
        (redis_client s = None \<longrightarrow> redis_client s' = None) \<and>
        (\<forall>r. redis_client s = Some r \<longrightarrow>
           (\<exists>r'. redis_client s' = Some r' \<and>
              (\<forall>now' k. redis_get r' now' k =
                 (if k \<in> Pair t ` set seat_ids
                  then if now' \<le> now + HOLD_TTL_SECONDS then Some rid else None
                  else redis_get r now' k))))) \<and>
     (\<forall>e s'. hold_seats s now t seat_ids = (Inl e, s') \<longrightarrow> s' = s)"
proof (intro conjI allI impI)
  show "(\<exists>v. fst (hold_seats s now t seat_ids) = Inr v) \<longleftrightarrow>
        distinct seat_ids \<and> set seat_ids \<subseteq> seat_id ` set (seats s) \<and>
        \<not> (\<exists>sid\<in>set seat_ids. \<exists>b\<in>set (booked_seats s). bs_showtime_id b = t \<and> bs_seat_id b = sid) \<and>
        \<not> (\<exists>r. redis_client s = Some r \<and> (\<exists>sid\<in>set seat_ids. redis_get r now (t, sid) \<noteq> None))"
    unfolding hold_seats_alt [OF pk] by auto
next
  fix e s'
  assume "hold_seats s now t seat_ids = (Inl e, s')"
  then show "s' = s"
    using hold_seats_result [of s now t seat_ids] by auto
next
  fix rid expiry s'
  assume a: "hold_seats s now t seat_ids = (Inr (rid, expiry), s')"
  then have eq: "rid = reservation_id (new_reservation s now t)" "expiry = now + HOLD_TTL_SECONDS"
    "s' = hold_writes s now t seat_ids"
    using hold_seats_result [of s now t seat_ids] by auto
  show "expiry = now + HOLD_TTL_SECONDS" by (rule eq)
  show "rid \<notin> reservation_id ` set (reservations s)"
    unfolding eq by (rule new_reservation_fresh)
  show "reservations s' = reservations s @
          [\<lparr>reservation_id = rid, user_id = None, res_showtime_id = t, res_status = ''held'',
            total_price = 0, expires_at = Some (now + HOLD_TTL_SECONDS)\<rparr>]"
    unfolding eq hold_writes_simps by (simp add: new_reservation_def)
  show "booked_seats s' = booked_seats s" "seats s' = seats s" "showtimes s' = showtimes s"
    unfolding eq hold_writes_simps by simp_all
  show "redis_client s' = None" if "redis_client s = None"
    unfolding eq hold_writes_simps using that by simp
  show "\<exists>r'. redis_client s' = Some r' \<and>
              (\<forall>now' k. redis_get r' now' k =
                 (if k \<in> Pair t ` set seat_ids
                  then if now' \<le> now + HOLD_TTL_SECONDS then Some rid else None
                  else redis_get r now' k))" if "redis_client s = Some r" for r
    unfolding eq(1,3) hold_writes_simps using that by (simp add: redis_get_place_holds)
qed

lemma commit_booking_None:
  "distinct sids \<Longrightarrow>
   commit_booking s t rid sids = None \<longleftrightarrow>
     (\<exists>sid\<in>set sids. \<exists>b\<in>set (booked_seats s). bs_showtime_id b = t \<and> bs_seat_id b = sid)"
  using insert_booked_seats_None [of "booked_seats s" t rid sids]
  by (cases "insert_booked_seats (booked_seats s) t rid sids") (simp_all add: commit_booking_def)

lemma commit_booking_Some:
  assumes "commit_booking s t rid sids = Some s1"
  shows "\<exists>new. booked_seats s1 = booked_seats s @ new \<and>
           map (\<lambda>b. (bs_showtime_id b, bs_seat_id b, bs_reservation_id b)) new
             = map (\<lambda>sid. (t, sid, rid)) sids"
    and "reservations s1 =
           map (\<lambda>r. if reservation_id r = rid then r\<lparr>res_status := ''confirmed''\<rparr> else r)
             (reservations s)"
    and "seats s1 = seats s" and "showtimes s1 = showtimes s"
    and "redis_client s1 = redis_client s"
proof -
  from assms obtain rows where
    ins: "insert_booked_seats (booked_seats s) t rid sids = Some rows" and
    s1: "s1 = s\<lparr>booked_seats := rows,
                 reservations := map (\<lambda>r. if reservation_id r = rid
                                           then r\<lparr>res_status := ''confirmed''\<rparr> else r)
                                     (reservations s)\<rparr>"
    by (auto simp add: commit_booking_def split: option.splits)
  from insert_booked_seats_rows [OF ins]
  show "\<exists>new. booked_seats s1 = booked_seats s @ new \<and>
           map (\<lambda>b. (bs_showtime_id b, bs_seat_id b, bs_reservation_id b)) new
             = map (\<lambda>sid. (t, sid, rid)) sids"
    unfolding s1 by simp
  show "reservations s1 =
           map (\<lambda>r. if reservation_id r = rid then r\<lparr>res_status := ''confirmed''\<rparr> else r)
             (reservations s)"
    "seats s1 = seats s" "showtimes s1 = showtimes s" "redis_client s1 = redis_client s"
    unfolding s1 by simp_all
qed

lemma clear_redis_simps:
  "booked_seats (clear_redis s t sids) = booked_seats s"
  "reservations (clear_redis s t sids) = reservations s"
  "seats (clear_redis s t sids) = seats s"
  "showtimes (clear_redis s t sids) = showtimes s"
  "redis_client (clear_redis s t sids) = map_option (\<lambda>r. clear_holds r t sids) (redis_client s)"
  by (cases "redis_client s"; simp add: clear_redis_def)+

text \<open>
  Claim C7. Let \<open>confirm_reservation\<close> find the reservation in status \<open>held\<close> with a
  non-empty list of held seats. If one of them already has a booked row for the
  showtime, the call fails with \<open>SeatConflict\<close> and returns the state as it was: none of
  the rows is kept and the status stays \<open>held\<close>. Otherwise the call succeeds; the booked
  table is the old one followed by one row per held seat, in order, for the showtime
  and the reservation; the reservation has status \<open>confirmed\<close>; and the keys of the
  held seats are gone from Redis, every other key being as before.
\<close>

theorem confirm_reservation_commit:
  assumes pk: "distinct (map reservation_id (reservations s))"
    and res: "res \<in> set (reservations s)" "reservation_id res = rid" "res_status res = ''held''"
    and held: "held = held_seats s now (res_showtime_id res) rid" "held \<noteq> []"
  shows
    "((\<exists>sid\<in>set held. \<exists>b\<in>set (booked_seats s).
          bs_showtime_id b = res_showtime_id res \<and> bs_seat_id b = sid)
        \<longrightarrow> confirm_reservation s now rid = (Inl SeatConflict, s)) \<and>
     (\<not> (\<exists>sid\<in>set held. \<exists>b\<in>set (booked_seats s).
          bs_showtime_id b = res_showtime_id res \<and> bs_seat_id b = sid)
        \<longrightarrow> (\<exists>s' new r r'.
              confirm_reservation s now rid = (Inr (''confirmed'', rid), s') \<and>
              booked_seats s' = booked_seats s @ new \<and>
              map (\<lambda>b. (bs_showtime_id b, bs_seat_id b, bs_reservation_id b)) new
                = map (\<lambda>sid. (res_showtime_id res, sid, rid)) held \<and>
              reservations s' =
                map (\<lambda>x. if reservation_id x = rid then x\<lparr>res_status := ''confirmed''\<rparr> else x)
                  (reservations s) \<and>
              seats s' = seats s \<and> showtimes s' = showtimes s \<and>
              redis_client s = Some r \<and> redis_client s' = Some r' \<and>
              (\<forall>now' k. redis_get r' now' k =
                 (if k \<in> Pair (res_showtime_id res) ` set held then None
                  else redis_get r now' k))))"
proof -
  let ?t = "res_showtime_id res"
  have found: "find (\<lambda>r. reservation_id r = rid \<and> res_status r = ''held'') (reservations s) = Some res"
    using pk res by (rule find_held_Some)
  have d: "distinct held" unfolding held by (rule distinct_held_seats)
  have unf: "confirm_reservation s now rid =
      (case commit_booking s ?t rid held of
         None \<Rightarrow> (Inl SeatConflict, s)
       | Some s1 \<Rightarrow> (Inr (''confirmed'', rid), clear_redis s1 ?t held))"
    using found held res by (simp add: confirm_reservation_def Let_def split: option.splits)
  from held obtain r where r: "redis_client s = Some r"
    by (cases "redis_client s") (auto simp add: held_seats_def)
  show ?thesis
  proof (intro conjI impI)
    assume "\<exists>sid\<in>set held. \<exists>b\<in>set (booked_seats s). bs_showtime_id b = ?t \<and> bs_seat_id b = sid"
    then have "commit_booking s ?t rid held = None"
      using commit_booking_None [OF d] by blast
    then show "confirm_reservation s now rid = (Inl SeatConflict, s)"
      unfolding unf by simp
  next
    assume "\<not> (\<exists>sid\<in>set held. \<exists>b\<in>set (booked_seats s). bs_showtime_id b = ?t \<and> bs_seat_id b = sid)"
    then have "commit_booking s ?t rid held \<noteq> None"
      using commit_booking_None [OF d] by blast
    then obtain s1 where s1: "commit_booking s ?t rid held = Some s1" by blast
    from commit_booking_Some(1) [OF s1] obtain new where
      new: "booked_seats s1 = booked_seats s @ new"
        "map (\<lambda>b. (bs_showtime_id b, bs_seat_id b, bs_reservation_id b)) new
           = map (\<lambda>sid. (?t, sid, rid)) held"
      by blast
    let ?s' = "clear_redis s1 ?t held"
    have "confirm_reservation s now rid = (Inr (''confirmed'', rid), ?s')"
      unfolding unf using s1 by simp
    moreover have "booked_seats ?s' = booked_seats s @ new"
      unfolding clear_redis_simps by (rule new)
    moreover have "reservations ?s' =
                map (\<lambda>x. if reservation_id x = rid then x\<lparr>res_status := ''confirmed''\<rparr> else x)
                  (reservations s)"
      unfolding clear_redis_simps by (rule commit_booking_Some(2) [OF s1])
    moreover have "seats ?s' = seats s" "showtimes ?s' = showtimes s"
      unfolding clear_redis_simps by (rule commit_booking_Some [OF s1])+
    moreover have "redis_client ?s' = Some (clear_holds r ?t held)"
      unfolding clear_redis_simps commit_booking_Some(5) [OF s1] r by simp
    moreover have "\<forall>now' k. redis_get (clear_holds r ?t held) now' k =
                 (if k \<in> Pair ?t ` set held then None else redis_get r now' k)"
      by (simp add: redis_get_clear_holds)
    ultimately show "\<exists>s' new r r'.
              confirm_reservation s now rid = (Inr (''confirmed'', rid), s') \<and>
              booked_seats s' = booked_seats s @ new \<and>
              map (\<lambda>b. (bs_showtime_id b, bs_seat_id b, bs_reservation_id b)) new
                = map (\<lambda>sid. (res_showtime_id res, sid, rid)) held \<and>
              reservations s' =
                map (\<lambda>x. if reservation_id x = rid then x\<lparr>res_status := ''confirmed''\<rparr> else x)
                  (reservations s) \<and>
              seats s' = seats s \<and> showtimes s' = showtimes s \<and>
              redis_client s = Some r \<and> redis_client s' = Some r' \<and>
              (\<forall>now' k. redis_get r' now' k =
                 (if k \<in> Pair (res_showtime_id res) ` set held then None
                  else redis_get r now' k))"
      using new(2) r by blast
  qed
qed

lemma hold_seats_Inr:
  assumes "fst (hold_seats s now t ids) = Inr v"
  shows "filter (\<lambda>b. bs_showtime_id b = t \<and> bs_seat_id b \<in> set ids) (booked_seats s) = []"
    and "\<not> (case redis_client s of None \<Rightarrow> False | Some r \<Rightarrow> any_held r now t ids)"
    and "snd (hold_seats s now t ids) = hold_writes s now t ids"
  using assms by (simp_all add: hold_seats_def split: if_splits)

lemma hold_seats_Inl:
  assumes "fst (hold_seats s now t ids) = Inl e"
  shows "snd (hold_seats s now t ids) = s"
  using assms by (simp add: hold_seats_def split: if_splits)

lemma hold_seats_seats: "seats (snd (hold_seats s now t ids)) = seats s"
  using hold_seats_result [of s now t ids] by (auto simp add: hold_writes_simps)

lemma confirm_reservation_seats: "seats (snd (confirm_reservation s now rid)) = seats s"
  by (auto simp add: confirm_reservation_def Let_def commit_booking_def clear_redis_simps
      split: option.splits)

lemma calls_before_seats: "calls_before deadline s s' \<Longrightarrow> seats s' = seats s"
  by (induction rule: calls_before.induct)
    (simp_all add: get_seats_def hold_seats_seats confirm_reservation_seats)

lemma claimed_hold_seats:
  assumes c: "claimed s deadline t0 sid0" and now: "now < deadline"
  shows "claimed (snd (hold_seats s now t ids)) deadline t0 sid0"
proof (cases "fst (hold_seats s now t ids)")
  case (Inl e)
  from hold_seats_Inl [OF Inl] c show ?thesis by simp
next
  case (Inr v)
  note ok = hold_seats_Inr [OF Inr]
  from c show ?thesis
    unfolding claimed_def
  proof (elim disjE exE conjE)
    assume "\<exists>b\<in>set (booked_seats s). bs_showtime_id b = t0 \<and> bs_seat_id b = sid0"
    then show "(\<exists>b\<in>set (booked_seats (snd (hold_seats s now t ids))).
                  bs_showtime_id b = t0 \<and> bs_seat_id b = sid0) \<or>
        (\<exists>r. redis_client (snd (hold_seats s now t ids)) = Some r \<and>
             (\<forall>now. now < deadline \<longrightarrow> redis_get r now (t0, sid0) \<noteq> None))"
      unfolding ok(3) hold_writes_simps by blast
  next
    fix r
    assume r: "redis_client s = Some r"
      and l: "\<forall>now. now < deadline \<longrightarrow> redis_get r now (t0, sid0) \<noteq> None"
    from ok(2) r have "\<not> any_held r now t ids" by simp
    then have free: "\<forall>sid\<in>set ids. redis_get r now (t, sid) = None"
      by (simp add: any_held_iff)
    have other: "(t0, sid0) \<notin> Pair t ` set ids"
    proof
      assume "(t0, sid0) \<in> Pair t ` set ids"
      then have "t0 = t" "sid0 \<in> set ids" by auto
      with free have "redis_get r now (t0, sid0) = None" by simp
      with l now show False by blast
    qed
    let ?r' = "place_holds r now t (reservation_id (new_reservation s now t)) ids"
    have "redis_client (snd (hold_seats s now t ids)) = Some ?r'"
      unfolding ok(3) hold_writes_simps using r by simp
    moreover have "\<forall>now. now < deadline \<longrightarrow> redis_get ?r' now (t0, sid0) \<noteq> None"
      using l other by (simp add: redis_get_place_holds)
    ultimately show "(\<exists>b\<in>set (booked_seats (snd (hold_seats s now t ids))).
                  bs_showtime_id b = t0 \<and> bs_seat_id b = sid0) \<or>
        (\<exists>r. redis_client (snd (hold_seats s now t ids)) = Some r \<and>
             (\<forall>now. now < deadline \<longrightarrow> redis_get r now (t0, sid0) \<noteq> None))"
      by blast
  qed
qed

lemma confirm_reservation_state:
  "snd (confirm_reservation s now rid) = s \<or>
   (\<exists>t held s1. commit_booking s t rid held = Some s1 \<and>
      snd (confirm_reservation s now rid) = clear_redis s1 t held)"
proof (cases "find (\<lambda>r. reservation_id r = rid \<and> res_status r = ''held'') (reservations s)")
  case None
  then show ?thesis by (simp add: confirm_reservation_def)
next
  case (Some res)
  from find_held_SomeD [OF Some] have "reservation_id res = rid" by simp
  with Some show ?thesis
    by (auto simp add: confirm_reservation_def Let_def split: option.splits)
qed

lemma claimed_confirm_reservation:
  assumes c: "claimed s deadline t0 sid0"
  shows "claimed (snd (confirm_reservation s now rid)) deadline t0 sid0"
  using confirm_reservation_state [of s now rid]
proof (elim disjE exE conjE)
  assume "snd (confirm_reservation s now rid) = s"
  with c show ?thesis by simp
next
  fix t held s1
  assume cb: "commit_booking s t rid held = Some s1"
    and s': "snd (confirm_reservation s now rid) = clear_redis s1 t held"
  from commit_booking_Some(1) [OF cb] obtain new where
    new: "booked_seats s1 = booked_seats s @ new"
      "map (\<lambda>b. (bs_showtime_id b, bs_seat_id b, bs_reservation_id b)) new
         = map (\<lambda>sid. (t, sid, rid)) held"
    by blast
  from c show ?thesis
    unfolding claimed_def
  proof (elim disjE exE conjE)
    assume "\<exists>b\<in>set (booked_seats s). bs_showtime_id b = t0 \<and> bs_seat_id b = sid0"
    then show "(\<exists>b\<in>set (booked_seats (snd (confirm_reservation s now rid))).
                  bs_showtime_id b = t0 \<and> bs_seat_id b = sid0) \<or>
        (\<exists>r. redis_client (snd (confirm_reservation s now rid)) = Some r \<and>
             (\<forall>now. now < deadline \<longrightarrow> redis_get r now (t0, sid0) \<noteq> None))"
      unfolding s' clear_redis_simps new(1) by auto
  next
    fix r
    assume r: "redis_client s = Some r"
      and l: "\<forall>now. now < deadline \<longrightarrow> redis_get r now (t0, sid0) \<noteq> None"
    have rc: "redis_client (snd (confirm_reservation s now rid)) = Some (clear_holds r t held)"
      unfolding s' clear_redis_simps commit_booking_Some(5) [OF cb] r by simp
    show "(\<exists>b\<in>set (booked_seats (snd (confirm_reservation s now rid))).
                  bs_showtime_id b = t0 \<and> bs_seat_id b = sid0) \<or>
        (\<exists>r. redis_client (snd (confirm_reservation s now rid)) = Some r \<and>
             (\<forall>now. now < deadline \<longrightarrow> redis_get r now (t0, sid0) \<noteq> None))"
    proof (cases "(t0, sid0) \<in> Pair t ` set held")
      case True
      then have "(t0, sid0, rid) \<in> set (map (\<lambda>sid. (t, sid, rid)) held)" by auto
      then have "(t0, sid0, rid) \<in> set (map (\<lambda>b. (bs_showtime_id b, bs_seat_id b, bs_reservation_id b)) new)"
        by (simp only: new(2))
      then obtain b where "b \<in> set new" "bs_showtime_id b = t0" "bs_seat_id b = sid0" by auto
      then have "\<exists>b\<in>set (booked_seats (snd (confirm_reservation s now rid))).
                  bs_showtime_id b = t0 \<and> bs_seat_id b = sid0"
        unfolding s' clear_redis_simps new(1) by auto
      then show ?thesis by blast
    next
      case False
      with l have "\<forall>now. now < deadline \<longrightarrow> redis_get (clear_holds r t held) now (t0, sid0) \<noteq> None"
        by (simp add: redis_get_clear_holds)
      with rc show ?thesis by blast
    qed
  qed
qed

lemma claimed_calls_before:
  "calls_before deadline s s' \<Longrightarrow> claimed s deadline t0 sid0 \<Longrightarrow> claimed s' deadline t0 sid0"
proof (induction rule: calls_before.induct)
  case (calls_none s)
  then show ?case by simp
next
  case (calls_get_seats s s' now t)
  then show ?case by (simp add: get_seats_def)
next
  case (calls_hold_seats s s' now t seat_ids)
  then show ?case by (simp add: claimed_hold_seats)
next
  case (calls_confirm_reservation s s' now rid)
  then show ?case by (simp add: claimed_confirm_reservation)
qed

lemma claimed_after_hold:
  assumes h: "fst (hold_seats s now t ids) = Inr v" and rc: "redis_client s \<noteq> None"
    and sid: "sid \<in> set ids"
  shows "claimed (snd (hold_seats s now t ids)) (now + HOLD_TTL_SECONDS) t sid"
proof -
  from rc obtain r where r: "redis_client s = Some r" by auto
  let ?r' = "place_holds r now t (reservation_id (new_reservation s now t)) ids"
  have "redis_client (snd (hold_seats s now t ids)) = Some ?r'"
    unfolding hold_seats_Inr(3) [OF h] hold_writes_simps using r by simp
  moreover have "\<forall>now'. now' < now + HOLD_TTL_SECONDS \<longrightarrow> redis_get ?r' now' (t, sid) \<noteq> None"
    using sid by (simp add: redis_get_place_holds)
  ultimately show ?thesis unfolding claimed_def by blast
qed

lemma claimed_hold_fails:
  assumes c: "claimed s deadline t sid" and now: "now < deadline" and sid: "sid \<in> set ids"
  shows "\<exists>e. hold_seats s now t ids = (Inl e, s)"
proof -
  from c have "filter (\<lambda>b. bs_showtime_id b = t \<and> bs_seat_id b \<in> set ids) (booked_seats s) \<noteq> [] \<or>
      (case redis_client s of None \<Rightarrow> False | Some r \<Rightarrow> any_held r now t ids)"
    unfolding claimed_def booked_check held_check using now sid by blast
  then show ?thesis by (auto simp add: hold_seats_def)
qed

text \<open>
  Claim C4, amended. The checks of \<open>hold_seats\<close> come in a fixed order. A list with a
  repeated id, or with an id that names no seat, fails with \<open>InvalidSeatSelection\<close>;
  otherwise a list with a seat booked for the showtime fails with \<open>SeatsAlreadyBooked\<close>;
  otherwise a list with a seat whose key is in Redis and unexpired fails with
  \<open>SeatsAlreadyHeld\<close>. With a Redis client, after a successful call for a list that
  contains a seat and any further calls of the core operations, a call before
  \<open>now + HOLD_TTL_SECONDS\<close> for a list that contains that seat fails and leaves the
  state as it was; it fails with \<open>SeatsAlreadyHeld\<close> when its ids are distinct, name
  seats and none of them is booked for the showtime, as is the case while the hold has
  not been confirmed.
\<close>

theorem hold_seats_errors:
  assumes pk: "distinct (map seat_id (seats s))"
  shows
    "(\<not> distinct ids \<or> \<not> set ids \<subseteq> seat_id ` set (seats s)
        \<longrightarrow> hold_seats s now t ids = (Inl InvalidSeatSelection, s)) \<and>
     (distinct ids \<and> set ids \<subseteq> seat_id ` set (seats s) \<and>
      (\<exists>sid\<in>set ids. \<exists>b\<in>set (booked_seats s). bs_showtime_id b = t \<and> bs_seat_id b = sid)
        \<longrightarrow> hold_seats s now t ids = (Inl SeatsAlreadyBooked, s)) \<and>
     (distinct ids \<and> set ids \<subseteq> seat_id ` set (seats s) \<and>
      \<not> (\<exists>sid\<in>set ids. \<exists>b\<in>set (booked_seats s). bs_showtime_id b = t \<and> bs_seat_id b = sid) \<and>
      (\<exists>r. redis_client s = Some r \<and> (\<exists>sid\<in>set ids. redis_get r now (t, sid) \<noteq> None))
        \<longrightarrow> hold_seats s now t ids = (Inl SeatsAlreadyHeld, s)) \<and>
     (\<forall>v s2 sid ids' now'.
        redis_client s \<noteq> None \<and> fst (hold_seats s now t ids) = Inr v \<and>
        calls_before (now + HOLD_TTL_SECONDS) (snd (hold_seats s now t ids)) s2 \<and>
        sid \<in> set ids \<and> sid \<in> set ids' \<and> now' < now + HOLD_TTL_SECONDS
        \<longrightarrow> (\<exists>e. hold_seats s2 now' t ids' = (Inl e, s2)) \<and>
            (distinct ids' \<and> set ids' \<subseteq> seat_id ` set (seats s2) \<and>
             \<not> (\<exists>sid'\<in>set ids'. \<exists>b\<in>set (booked_seats s2).
                    bs_showtime_id b = t \<and> bs_seat_id b = sid')
               \<longrightarrow> hold_seats s2 now' t ids' = (Inl SeatsAlreadyHeld, s2)))"
proof (intro conjI allI impI)
  show "hold_seats s now t ids = (Inl InvalidSeatSelection, s)"
    if "\<not> distinct ids \<or> \<not> set ids \<subseteq> seat_id ` set (seats s)"
    unfolding hold_seats_alt [OF pk] using that by auto
  show "hold_seats s now t ids = (Inl SeatsAlreadyBooked, s)"
    if "distinct ids \<and> set ids \<subseteq> seat_id ` set (seats s) \<and>
      (\<exists>sid\<in>set ids. \<exists>b\<in>set (booked_seats s). bs_showtime_id b = t \<and> bs_seat_id b = sid)"
    unfolding hold_seats_alt [OF pk] using that by auto
  show "hold_seats s now t ids = (Inl SeatsAlreadyHeld, s)"
    if "distinct ids \<and> set ids \<subseteq> seat_id ` set (seats s) \<and>
      \<not> (\<exists>sid\<in>set ids. \<exists>b\<in>set (booked_seats s). bs_showtime_id b = t \<and> bs_seat_id b = sid) \<and>
      (\<exists>r. redis_client s = Some r \<and> (\<exists>sid\<in>set ids. redis_get r now (t, sid) \<noteq> None))"
    unfolding hold_seats_alt [OF pk] using that by auto
next
  fix v s2 sid ids' now'
  assume a: "redis_client s \<noteq> None \<and> fst (hold_seats s now t ids) = Inr v \<and>
        calls_before (now + HOLD_TTL_SECONDS) (snd (hold_seats s now t ids)) s2 \<and>
        sid \<in> set ids \<and> sid \<in> set ids' \<and> now' < now + HOLD_TTL_SECONDS"
  then have "claimed (snd (hold_seats s now t ids)) (now + HOLD_TTL_SECONDS) t sid"
    by (intro claimed_after_hold) simp_all
  with a have c: "claimed s2 (now + HOLD_TTL_SECONDS) t sid"
    using claimed_calls_before by blast
  from a have "seats s2 = seats s"
    using calls_before_seats [of "now + HOLD_TTL_SECONDS" "snd (hold_seats s now t ids)" s2]
    by (simp add: hold_seats_seats)
  with pk have pk2: "distinct (map seat_id (seats s2))" by simp
  from claimed_hold_fails [OF c] a
  show fails: "\<exists>e. hold_seats s2 now' t ids' = (Inl e, s2)" by blast
  show "hold_seats s2 now' t ids' = (Inl SeatsAlreadyHeld, s2)"
    if "distinct ids' \<and> set ids' \<subseteq> seat_id ` set (seats s2) \<and>
             \<not> (\<exists>sid'\<in>set ids'. \<exists>b\<in>set (booked_seats s2).
                    bs_showtime_id b = t \<and> bs_seat_id b = sid')"
    using fails that unfolding hold_seats_alt [OF pk2] by (auto split: if_splits)
qed

section \<open>No double booking\<close>

lemma distinct_map_count:
  "distinct (map f xs) \<longleftrightarrow> (\<forall>k. length (filter (\<lambda>x. f x = k) xs) \<le> 1)"
proof (induction xs)
  case Nil
  then show ?case by simp
next
  case (Cons x xs)
  have a: "f x \<notin> f ` set xs \<longleftrightarrow> length (filter (\<lambda>y. f y = f x) xs) = 0"
    by (force simp add: filter_empty_conv image_iff)
  show ?case
  proof
    assume d: "distinct (map f (x # xs))"
    then have 1: "length (filter (\<lambda>y. f y = f x) xs) = 0" and 2: "\<forall>k. length (filter (\<lambda>x. f x = k) xs) \<le> 1"
      using a Cons.IH by simp_all
    show "\<forall>k. length (filter (\<lambda>y. f y = k) (x # xs)) \<le> 1"
    proof
      fix k
      show "length (filter (\<lambda>y. f y = k) (x # xs)) \<le> 1"
        using 1 2 [rule_format, of k] by (cases "f x = k") auto
    qed
  next
    assume c: "\<forall>k. length (filter (\<lambda>y. f y = k) (x # xs)) \<le> 1"
    have "length (filter (\<lambda>y. f y = f x) xs) = 0"
      using c [rule_format, of "f x"] by simp
    moreover have "\<forall>k. length (filter (\<lambda>y. f y = k) xs) \<le> 1"
    proof
      fix k
      show "length (filter (\<lambda>y. f y = k) xs) \<le> 1"
        using c [rule_format, of k] by (cases "f x = k") auto
    qed
    ultimately show "distinct (map f (x # xs))"
      using a Cons.IH by simp
  qed
qed

lemma unique_booked_iff:
  "(\<forall>t sid. length (filter (\<lambda>b. bs_showtime_id b = t \<and> bs_seat_id b = sid) bs) \<le> 1)
     \<longleftrightarrow> distinct (map bkey bs)"
proof -
  have "(\<lambda>b. bs_showtime_id b = t \<and> bs_seat_id b = sid) = (\<lambda>b. bkey b = (t, sid))" for t sid
    by (auto simp add: bkey_def)
  then show ?thesis by (simp add: distinct_map_count)
qed

lemma hold_seats_booked: "booked_seats (snd (hold_seats s now t ids)) = booked_seats s"
  using hold_seats_result [of s now t ids] by (auto simp add: hold_writes_simps)

lemma confirm_reservation_booked:
  "booked_seats (snd (confirm_reservation s now rid)) = booked_seats s \<or>
   (\<exists>t r sids. insert_booked_seats (booked_seats s) t r sids
       = Some (booked_seats (snd (confirm_reservation s now rid))))"
  by (auto simp add: confirm_reservation_def Let_def commit_booking_def clear_redis_simps
      split: option.splits)

lemma step_booked_seats:
  assumes "step s s'"
  shows "booked_seats s' = booked_seats s \<or>
         (\<exists>P. booked_seats s' = filter P (booked_seats s)) \<or>
         (\<exists>t r sids. insert_booked_seats (booked_seats s) t r sids = Some (booked_seats s'))"
  using assms
proof cases
  case (step_get_seats now t)
  then show ?thesis by (simp add: get_seats_def)
next
  case (step_hold_seats now t seat_ids)
  then show ?thesis by (simp add: hold_seats_booked)
next
  case (step_confirm_reservation now rid)
  then show ?thesis using confirm_reservation_booked [of s now rid] by blast
next
  case (step_commit t rid sids)
  then show ?thesis by (auto simp add: commit_booking_def split: option.splits)
next
  case (step_create_showtime inp)
  then show ?thesis by (simp add: create_showtime_def Let_def split: option.splits)
next
  case (step_update_showtime i inp)
  then show ?thesis by (simp add: update_showtime_def Let_def split: option.splits)
next
  case (step_delete_showtime i)
  then show ?thesis by (simp add: delete_showtime_def split: option.splits)
next
  case (step_delete_seat i)
  then show ?thesis by (simp add: delete_seat_def split: option.splits)
next
  case (step_cascade P)
  then show ?thesis by auto
qed simp_all

lemma step_unique:
  assumes "step s s'" and "distinct (map bkey (booked_seats s))"
  shows "distinct (map bkey (booked_seats s'))"
  using step_booked_seats [OF assms(1)] assms(2)
  by (auto simp add: distinct_map_filter dest: insert_booked_seats_distinct)

lemma reachable_unique: "reachable s \<Longrightarrow> distinct (map bkey (booked_seats s))"
proof (induction rule: reachable.induct)
  case (reachable_initial s)
  then show ?case by (simp add: initial_def)
next
  case (reachable_step s s')
  then show ?case using step_unique by blast
qed

text \<open>
  Claim C1. In every reachable state there is at most one booked row for each pair of
  a showtime and a seat, and every step preserves this. The only steps that add booked
  rows are the commits of \<open>confirm_reservation\<close>, and \<open>insert_booked_seats\<close> refuses
  a row whose pair is in the table.
\<close>

theorem no_double_booking:
  "(reachable s \<longrightarrow>
      (\<forall>t sid. length (filter (\<lambda>b. bs_showtime_id b = t \<and> bs_seat_id b = sid) (booked_seats s)) \<le> 1)) \<and>
   ((\<forall>t sid. length (filter (\<lambda>b. bs_showtime_id b = t \<and> bs_seat_id b = sid) (booked_seats s)) \<le> 1)
      \<and> step s s' \<longrightarrow>
      (\<forall>t sid. length (filter (\<lambda>b. bs_showtime_id b = t \<and> bs_seat_id b = sid) (booked_seats s')) \<le> 1))"
  unfolding unique_booked_iff using reachable_unique step_unique by blast

section \<open>Showtimes\<close>

lemma disjoint_intervals:
  fixes s1 e1 s2 e2 :: int
  shows "\<not> (s1 < e2 \<and> s2 < e1) \<Longrightarrow> {s1 ..< e1} \<inter> {s2 ..< e2} = {}"
  by auto

lemma no_overlap_create:
  assumes inv: "no_overlap xs" and free: "\<forall>x\<in>set xs. \<not> overlaps inp x"
    and st: "auditorium_id st = in_auditorium_id inp" "starts_at st = in_starts_at inp"
      "ends_at st = in_ends_at inp"
  shows "no_overlap (xs @ [st])"
proof -
  have new: "{starts_at a ..< ends_at a} \<inter> {starts_at st ..< ends_at st} = {}"
    if "a \<in> set xs" "auditorium_id a = auditorium_id st" for a
  proof (rule disjoint_intervals)
    from free that st show "\<not> (starts_at a < ends_at st \<and> starts_at st < ends_at a)"
      by (auto simp add: overlaps_def)
  qed
  show ?thesis
    unfolding no_overlap_def
  proof (intro ballI impI)
    fix a b
    assume ab: "a \<in> set (xs @ [st])" "b \<in> set (xs @ [st])"
      "showtime_id a \<noteq> showtime_id b \<and> auditorium_id a = auditorium_id b"
    consider "a \<in> set xs" "b \<in> set xs" | "a \<in> set xs" "b = st" | "a = st" "b \<in> set xs"
      | "a = st" "b = st"
      using ab by auto
    then show "{starts_at a ..< ends_at a} \<inter> {starts_at b ..< ends_at b} = {}"
    proof cases
      case 1
      with inv ab(3) show ?thesis unfolding no_overlap_def by blast
    next
      case 2
      with new [of a] ab(3) show ?thesis by simp
    next
      case 3
      with new [of b] ab(3) show ?thesis by (simp add: Int_commute)
    next
      case 4
      with ab(3) show ?thesis by simp
    qed
  qed
qed

lemma find_overlaps_None:
  "find (overlaps inp) xs = None \<longleftrightarrow>
     \<not> (\<exists>x\<in>set xs. auditorium_id x = in_auditorium_id inp \<and> starts_at x < in_ends_at inp \<and>
            ends_at x > in_starts_at inp)"
  by (auto simp add: find_None_iff overlaps_def)

lemma find_other_overlaps_None:
  "find (\<lambda>x. showtime_id x \<noteq> i \<and> overlaps inp x) xs = None \<longleftrightarrow>
     \<not> (\<exists>x\<in>set xs. showtime_id x \<noteq> i \<and> auditorium_id x = in_auditorium_id inp \<and>
            starts_at x < in_ends_at inp \<and> ends_at x > in_starts_at inp)"
  by (auto simp add: find_None_iff overlaps_def)

lemma create_showtime_None:
  "find (overlaps inp) (showtimes s) \<noteq> None \<Longrightarrow> create_showtime s inp = (None, s)"
  by (auto simp add: create_showtime_def)

lemma create_showtime_Some:
  "find (overlaps inp) (showtimes s) = None \<Longrightarrow>
   \<exists>st. create_showtime s inp = (Some st, s\<lparr>showtimes := showtimes s @ [st]\<rparr>) \<and>
        showtime_id st = next_id (map showtime_id (showtimes s)) \<and>
        auditorium_id st = in_auditorium_id inp \<and> starts_at st = in_starts_at inp \<and>
        ends_at st = in_ends_at inp"
  by (simp add: create_showtime_def Let_def)

lemma get_showtime_SomeD: "get_showtime s i = Some cur \<Longrightarrow> cur \<in> set (showtimes s) \<and> showtime_id cur = i"
  unfolding get_showtime_def by (induction "showtimes s" arbitrary: s) (auto simp add: find_Some_iff)

lemma update_showtime_cases:
  "(get_showtime s i = None \<and> update_showtime s i inp = (None, s)) \<or>
   (get_showtime s i \<noteq> None \<and>
    find (\<lambda>x. showtime_id x \<noteq> i \<and> overlaps inp x) (showtimes s) \<noteq> None \<and>
    update_showtime s i inp = (None, s)) \<or>
   (get_showtime s i \<noteq> None \<and>
    find (\<lambda>x. showtime_id x \<noteq> i \<and> overlaps inp x) (showtimes s) = None \<and>
    (\<exists>st. update_showtime s i inp =
            (Some st, s\<lparr>showtimes := map (\<lambda>x. if showtime_id x = i then st else x) (showtimes s)\<rparr>) \<and>
          showtime_id st = i \<and>
          auditorium_id st = in_auditorium_id inp \<and> starts_at st = in_starts_at inp \<and>
          ends_at st = in_ends_at inp))"
proof (cases "get_showtime s i")
  case None
  then show ?thesis by (simp add: update_showtime_def)
next
  case (Some cur)
  from get_showtime_SomeD [OF Some] have "showtime_id cur = i" by simp
  with Some show ?thesis
    by (cases "find (\<lambda>x. showtime_id x \<noteq> i \<and> overlaps inp x) (showtimes s)")
      (simp_all add: update_showtime_def Let_def)
qed

lemma no_overlap_update:
  assumes inv: "no_overlap xs" and free: "\<forall>x\<in>set xs. \<not> (showtime_id x \<noteq> i \<and> overlaps inp x)"
    and st: "showtime_id st = i" "auditorium_id st = in_auditorium_id inp"
      "starts_at st = in_starts_at inp" "ends_at st = in_ends_at inp"
  shows "no_overlap (map (\<lambda>x. if showtime_id x = i then st else x) xs)"
proof -
  have new: "{starts_at a ..< ends_at a} \<inter> {starts_at st ..< ends_at st} = {}"
    if "a \<in> set xs" "showtime_id a \<noteq> i" "auditorium_id a = auditorium_id st" for a
  proof (rule disjoint_intervals)
    from free that st show "\<not> (starts_at a < ends_at st \<and> starts_at st < ends_at a)"
      by (auto simp add: overlaps_def)
  qed
  have mem: "a = st \<or> (a \<in> set xs \<and> showtime_id a \<noteq> i)"
    if "a \<in> set (map (\<lambda>x. if showtime_id x = i then st else x) xs)" for a
    using that by auto
  show ?thesis
    unfolding no_overlap_def
  proof (intro ballI impI)
    fix a b
    assume a: "a \<in> set (map (\<lambda>x. if showtime_id x = i then st else x) xs)"
      and b: "b \<in> set (map (\<lambda>x. if showtime_id x = i then st else x) xs)"
      and ab: "showtime_id a \<noteq> showtime_id b \<and> auditorium_id a = auditorium_id b"
    from mem [OF a] mem [OF b]
    consider "a \<in> set xs" "b \<in> set xs" "showtime_id a \<noteq> i" "showtime_id b \<noteq> i"
      | "a \<in> set xs" "showtime_id a \<noteq> i" "b = st" | "a = st" "b \<in> set xs" "showtime_id b \<noteq> i"
      | "a = st" "b = st"
      by blast
    then show "{starts_at a ..< ends_at a} \<inter> {starts_at b ..< ends_at b} = {}"
    proof cases
      case 1
      with inv ab show ?thesis unfolding no_overlap_def by blast
    next
      case 2
      with new [of a] ab show ?thesis by simp
    next
      case 3
      with new [of b] ab show ?thesis by (simp add: Int_commute)
    next
      case 4
      with ab show ?thesis by simp
    qed
  qed
qed

text \<open>
  Claim C9, amended. On a showtime table whose ids are a primary key and whose
  showtimes do not overlap within an auditorium, \<open>create_showtime\<close> and
  \<open>update_showtime\<close> leave a table of the same kind. \<open>create_showtime\<close> returns \<open>None\<close>
  exactly when a showtime of the same auditorium has \<open>starts_at < new.ends_at\<close> and
  \<open>ends_at > new.starts_at\<close>. \<open>update_showtime\<close> returns \<open>None\<close> exactly when the id
  names no showtime or such a showtime other than the one updated exists. A call that
  returns \<open>None\<close> writes nothing.
\<close>

theorem showtime_writes_no_overlap:
  assumes pk: "distinct (map showtime_id (showtimes s))" and inv: "no_overlap (showtimes s)"
  shows
    "no_overlap (showtimes (snd (create_showtime s inp))) \<and>
     distinct (map showtime_id (showtimes (snd (create_showtime s inp)))) \<and>
     (fst (create_showtime s inp) = None \<longleftrightarrow>
        (\<exists>x\<in>set (showtimes s). auditorium_id x = in_auditorium_id inp \<and>
           starts_at x < in_ends_at inp \<and> ends_at x > in_starts_at inp)) \<and>
     (fst (create_showtime s inp) = None \<longrightarrow> snd (create_showtime s inp) = s) \<and>
     no_overlap (showtimes (snd (update_showtime s i inp))) \<and>
     distinct (map showtime_id (showtimes (snd (update_showtime s i inp)))) \<and>
     (fst (update_showtime s i inp) = None \<longleftrightarrow>
        get_showtime s i = None \<or>
        (\<exists>x\<in>set (showtimes s). showtime_id x \<noteq> i \<and> auditorium_id x = in_auditorium_id inp \<and>
           starts_at x < in_ends_at inp \<and> ends_at x > in_starts_at inp)) \<and>
     (fst (update_showtime s i inp) = None \<longrightarrow> snd (update_showtime s i inp) = s)"
proof -
  have create: "no_overlap (showtimes (snd (create_showtime s inp))) \<and>
     distinct (map showtime_id (showtimes (snd (create_showtime s inp)))) \<and>
     (fst (create_showtime s inp) = None \<longleftrightarrow>
        (\<exists>x\<in>set (showtimes s). auditorium_id x = in_auditorium_id inp \<and>
           starts_at x < in_ends_at inp \<and> ends_at x > in_starts_at inp)) \<and>
     (fst (create_showtime s inp) = None \<longrightarrow> snd (create_showtime s inp) = s)"
  proof (cases "find (overlaps inp) (showtimes s) = None")
    case False
    from create_showtime_None [OF False] False pk inv show ?thesis
      using find_overlaps_None [of inp "showtimes s"] by auto
  next
    case True
    from create_showtime_Some [OF True] obtain st where
      c: "create_showtime s inp = (Some st, s\<lparr>showtimes := showtimes s @ [st]\<rparr>)" and
      st: "showtime_id st = next_id (map showtime_id (showtimes s))"
        "auditorium_id st = in_auditorium_id inp" "starts_at st = in_starts_at inp"
        "ends_at st = in_ends_at inp"
      by blast
    from True have free: "\<forall>x\<in>set (showtimes s). \<not> overlaps inp x"
      by (simp add: find_None_iff)
    have "no_overlap (showtimes s @ [st])"
      using inv free st(2-4) by (rule no_overlap_create)
    moreover have "showtime_id st \<notin> set (map showtime_id (showtimes s))"
      unfolding st(1) using next_id_fresh [of _ "map showtime_id (showtimes s)"] by blast
    then have "distinct (map showtime_id (showtimes s @ [st]))"
      using pk by simp
    ultimately show ?thesis
      using c True find_overlaps_None [of inp "showtimes s"] by auto
  qed
  have update: "no_overlap (showtimes (snd (update_showtime s i inp))) \<and>
     distinct (map showtime_id (showtimes (snd (update_showtime s i inp)))) \<and>
     (fst (update_showtime s i inp) = None \<longleftrightarrow>
        get_showtime s i = None \<or>
        (\<exists>x\<in>set (showtimes s). showtime_id x \<noteq> i \<and> auditorium_id x = in_auditorium_id inp \<and>
           starts_at x < in_ends_at inp \<and> ends_at x > in_starts_at inp)) \<and>
     (fst (update_showtime s i inp) = None \<longrightarrow> snd (update_showtime s i inp) = s)"
    using update_showtime_cases [of s i inp]
  proof (elim disjE conjE exE)
    assume "get_showtime s i = None" "update_showtime s i inp = (None, s)"
    with pk inv show ?thesis by simp
  next
    assume a: "get_showtime s i \<noteq> None"
      "find (\<lambda>x. showtime_id x \<noteq> i \<and> overlaps inp x) (showtimes s) \<noteq> None"
      "update_showtime s i inp = (None, s)"
    with pk inv show ?thesis
      using find_other_overlaps_None [of i inp "showtimes s"] by auto
  next
    fix st
    assume a: "get_showtime s i \<noteq> None"
      "find (\<lambda>x. showtime_id x \<noteq> i \<and> overlaps inp x) (showtimes s) = None"
      "update_showtime s i inp =
            (Some st, s\<lparr>showtimes := map (\<lambda>x. if showtime_id x = i then st else x) (showtimes s)\<rparr>)"
      and st: "showtime_id st = i" "auditorium_id st = in_auditorium_id inp"
        "starts_at st = in_starts_at inp" "ends_at st = in_ends_at inp"
    from a(2) have free: "\<forall>x\<in>set (showtimes s). \<not> (showtime_id x \<noteq> i \<and> overlaps inp x)"
      by (simp add: find_None_iff)
    have "no_overlap (map (\<lambda>x. if showtime_id x = i then st else x) (showtimes s))"
      using inv free st by (rule no_overlap_update)
    moreover have "map showtime_id (map (\<lambda>x. if showtime_id x = i then st else x) (showtimes s))
        = map showtime_id (showtimes s)"
      using st(1) by (induction "showtimes s") auto
    then have "distinct (map showtime_id (map (\<lambda>x. if showtime_id x = i then st else x) (showtimes s)))"
      using pk by (simp only:)
    ultimately show ?thesis
      using a pk find_other_overlaps_None [of i inp "showtimes s"] by auto
  qed
  from create update show ?thesis by blast
qed

lemma held_ids_cong:
  assumes "\<forall>r e. redis_client s = Some r \<and> e \<in> set r \<and> hold_showtime e = t \<longrightarrow>
             (live now' e \<longleftrightarrow> live now e)"
  shows "held_ids s now' t = held_ids s now t"
proof (cases "redis_client s")
  case None
  then show ?thesis by (simp add: held_ids_def)
next
  case (Some r)
  have "filter (\<lambda>e. live now' e \<and> hold_showtime e = t) r
      = filter (\<lambda>e. live now e \<and> hold_showtime e = t) r"
    using assms Some by (intro filter_cong) auto
  then show ?thesis using Some by (simp add: held_ids_def redis_keys_def)
qed

text \<open>
  Claim C8. \<open>get_seats\<close> writes nothing: the second of two calls with no write in
  between runs on the state the first was given. What the Hold Index holds at an
  instant are its unexpired keys, a part of its state that the instant of the call
  stands for here. Two calls that find both stores in the same state return the same
  sequence: two calls at one instant do, and so do two calls at instants between which
  the keys of the showtime are the same, each unexpired at both or at neither.
\<close>

theorem get_seats_repeatable:
  "snd (get_seats s now t) = s \<and>
   fst (get_seats (snd (get_seats s now t)) now t) = fst (get_seats s now t) \<and>
   ((\<forall>r e. redis_client s = Some r \<and> e \<in> set r \<and> hold_showtime e = t \<longrightarrow>
             (live now' e \<longleftrightarrow> live now e))
      \<longrightarrow> fst (get_seats (snd (get_seats s now t)) now' t) = fst (get_seats s now t))"
proof (intro conjI impI)
  show "snd (get_seats s now t) = s" by (simp add: get_seats_def)
  show "fst (get_seats (snd (get_seats s now t)) now t) = fst (get_seats s now t)"
    by (simp add: get_seats_def)
  show "fst (get_seats (snd (get_seats s now t)) now' t) = fst (get_seats s now t)"
    if "\<forall>r e. redis_client s = Some r \<and> e \<in> set r \<and> hold_showtime e = t \<longrightarrow>
             (live now' e \<longleftrightarrow> live now e)"
    using held_ids_cong [OF that] by (simp add: get_seats_def seat_status_def)
qed

section \<open>The claims on the scenario\<close>

lemmas scenario_defs = seat_1_def seat_2_def seat_3_def showtime_1_def st_free_def
lemmas redis_defs = redis_get_def redis_keys_def redis_setex_def redis_delete_def hold_key_def
  live_def HOLD_TTL_SECONDS_def
lemmas hold_defs = hold_seats_def hold_writes_def new_reservation_def next_id_def Let_def
lemmas confirm_defs = confirm_reservation_def held_seats_def commit_booking_def clear_redis_def
  next_id_def Let_def

lemma st_held_eq:
  "st_held =
     \<lparr>seats = [seat_1, seat_2, seat_3], showtimes = [showtime_1],
      reservations =
        [\<lparr>reservation_id = 1, user_id = None, res_showtime_id = 1, res_status = ''held'',
          total_price = 0, expires_at = Some 600\<rparr>],
      booked_seats = [],
      redis_client =
        Some [\<lparr>hold_showtime = 1, hold_seat = 2, hold_value = 1, hold_expires = 600\<rparr>,
              \<lparr>hold_showtime = 1, hold_seat = 1, hold_value = 1, hold_expires = 600\<rparr>]\<rparr>"
  by (simp add: st_held_def scenario_defs hold_defs redis_defs)

lemma hold_free_eq: "hold_seats st_free 0 1 [1, 2] = (Inr (1, 600), st_held)"
  unfolding st_held_eq by (simp add: scenario_defs hold_defs redis_defs)

lemma st_booked_eq:
  "st_booked =
     \<lparr>seats = [seat_1, seat_2, seat_3], showtimes = [showtime_1],
      reservations =
        [\<lparr>reservation_id = 1, user_id = None, res_showtime_id = 1, res_status = ''confirmed'',
          total_price = 0, expires_at = Some 600\<rparr>],
      booked_seats =
        [\<lparr>booked_id = 1, bs_showtime_id = 1, bs_seat_id = 2, bs_reservation_id = 1\<rparr>,
         \<lparr>booked_id = 2, bs_showtime_id = 1, bs_seat_id = 1, bs_reservation_id = 1\<rparr>],
      redis_client = Some []\<rparr>"
  unfolding st_booked_def st_held_eq by (simp add: confirm_defs redis_defs)

lemma confirm_held_eq: "confirm_reservation st_held 10 1 = (Inr (''confirmed'', 1), st_booked)"
  unfolding st_booked_eq st_held_eq by (simp add: confirm_defs redis_defs)

text \<open>Claim C10 on the scenario: seat 1 listed twice.\<close>

theorem hold_seats_duplicate_ids_witness:
  "distinct (map seat_id (seats st_free)) \<and> \<not> distinct [1, 1 :: int] \<and>
   hold_seats st_free 0 1 [1, 1] = (Inl InvalidSeatSelection, st_free)"
proof -
  have pk: "distinct (map seat_id (seats st_free))" by (simp add: scenario_defs)
  have dup: "\<not> distinct [1, 1 :: int]" by simp
  from hold_seats_duplicate_ids [OF pk dup] pk dup show ?thesis by blast
qed

lemma st_race_held: "held_seats st_race 100 1 2 = [1, 2]"
  by (simp add: st_race_def held_seats_def redis_defs)

lemma st_held_held: "held_seats st_held 10 1 1 = [2, 1]"
  unfolding st_held_eq by (simp add: held_seats_def redis_defs)

lemma st_free_reachable: "reachable st_free"
proof -
  have "initial st_empty" by (simp add: initial_def st_empty_def)
  then have "reachable st_empty" by (rule reachable_initial)
  then have "reachable (st_empty\<lparr>seats := seats st_empty @ [seat_1, seat_2, seat_3]\<rparr>)"
    using step_create_seats by (rule reachable_step)
  then have "reachable (snd (create_showtime
      (st_empty\<lparr>seats := seats st_empty @ [seat_1, seat_2, seat_3]\<rparr>) showtime_in_1))"
    using step_create_showtime by (rule reachable_step)
  moreover have "snd (create_showtime
      (st_empty\<lparr>seats := seats st_empty @ [seat_1, seat_2, seat_3]\<rparr>) showtime_in_1) = st_free"
    by (simp add: create_showtime_def st_empty_def st_free_def showtime_in_1_def
        showtime_1_def overlaps_def next_id_def Let_def)
  ultimately show ?thesis by simp
qed

text \<open>Claim C1 on the scenario: the states after the hold and after the confirmation.\<close>

theorem no_double_booking_witness:
  "reachable st_held \<and> step st_held st_booked \<and>
   map bkey (booked_seats st_booked) = [(1, 2), (1, 1)] \<and>
   (\<forall>t sid. length (filter (\<lambda>b. bs_showtime_id b = t \<and> bs_seat_id b = sid)
                      (booked_seats st_held)) \<le> 1) \<and>
   (\<forall>t sid. length (filter (\<lambda>b. bs_showtime_id b = t \<and> bs_seat_id b = sid)
                      (booked_seats st_booked)) \<le> 1)"
proof -
  have r: "reachable st_held"
    unfolding st_held_def using st_free_reachable step_hold_seats by (rule reachable_step)
  have s: "step st_held st_booked"
    unfolding st_booked_def by (rule step_confirm_reservation)
  have b: "map bkey (booked_seats st_booked) = [(1, 2), (1, 1)]"
    unfolding st_booked_eq by (simp add: bkey_def)
  from no_double_booking [of st_held st_booked] r s
  have "(\<forall>t sid. length (filter (\<lambda>b. bs_showtime_id b = t \<and> bs_seat_id b = sid)
                      (booked_seats st_held)) \<le> 1) \<and>
        (\<forall>t sid. length (filter (\<lambda>b. bs_showtime_id b = t \<and> bs_seat_id b = sid)
                      (booked_seats st_booked)) \<le> 1)"
    by blast
  with r s b show ?thesis by blast
qed

text \<open>
  Claim C3 on the scenario: in \<open>st_race\<close> seat 1 is booked and has a key, seat 2 has a
  key, seat 3 has neither.
\<close>

theorem get_seats_status_witness:
  "snd (get_seats st_race 100 1) = st_race \<and>
   map out_id (fst (get_seats st_race 100 1)) = [1, 2, 3] \<and>
   map out_status (fst (get_seats st_race 100 1)) = [''booked'', ''held'', ''available'']"
proof -
  have ids: "map out_id (fst (get_seats st_race 100 1)) = [1, 2, 3]"
    by (simp add: get_seats_def seat_status_def st_race_def seat_1_def seat_2_def seat_3_def)
  have len: "length (fst (get_seats st_race 100 1)) = 3"
    by (simp add: get_seats_def st_race_def)
  from get_seats_status [of st_race 100 1] have
    same: "snd (get_seats st_race 100 1) = st_race" and
    st: "\<And>out. out \<in> set (fst (get_seats st_race 100 1)) \<Longrightarrow>
      out_status out =
        (if \<exists>b\<in>set (booked_seats st_race). bs_showtime_id b = 1 \<and> bs_seat_id b = out_id out
         then ''booked''
         else if \<exists>r. redis_client st_race = Some r \<and> redis_get r 100 (1, out_id out) \<noteq> None
         then ''held''
         else ''available'')"
    by blast+
  have "map out_status (fst (get_seats st_race 100 1))
      = map (\<lambda>out. if \<exists>b\<in>set (booked_seats st_race). bs_showtime_id b = 1 \<and> bs_seat_id b = out_id out
         then ''booked''
         else if \<exists>r. redis_client st_race = Some r \<and> redis_get r 100 (1, out_id out) \<noteq> None
         then ''held''
         else ''available'') (fst (get_seats st_race 100 1))"
    using st by (intro map_cong) simp_all
  also have "\<dots> = map (\<lambda>i. if \<exists>b\<in>set (booked_seats st_race). bs_showtime_id b = 1 \<and> bs_seat_id b = i
         then ''booked''
         else if \<exists>r. redis_client st_race = Some r \<and> redis_get r 100 (1, i) \<noteq> None
         then ''held''
         else ''available'') (map out_id (fst (get_seats st_race 100 1)))"
    by (simp add: comp_def)
  also have "\<dots> = [''booked'', ''held'', ''available'']"
    unfolding ids by (simp add: st_race_def redis_defs)
  finally show ?thesis using same ids by simp
qed

text \<open>
  Claim C6 on the scenario: at instant 601 the keys of reservation 1 have expired;
  after the confirmation reservation 1 is no longer \<open>held\<close>.
\<close>

theorem confirm_reservation_failures_witness:
  "distinct (map reservation_id (reservations st_held)) \<and>
   confirm_reservation st_held 601 1 = (Inl HoldExpired, st_held) \<and>
   distinct (map reservation_id (reservations st_booked)) \<and>
   confirm_reservation st_booked 20 1 = (Inl ReservationNotFound, st_booked)"
proof -
  have pk1: "distinct (map reservation_id (reservations st_held))"
    unfolding st_held_eq by simp
  have pk2: "distinct (map reservation_id (reservations st_booked))"
    unfolding st_booked_eq by simp
  have e: "\<exists>res\<in>set (reservations st_held). reservation_id res = 1 \<and> res_status res = ''held'' \<and>
           {sid. \<exists>r. redis_client st_held = Some r \<and>
                   redis_get r 601 (res_showtime_id res, sid) = Some 1} = {}"
    unfolding st_held_eq by (simp add: redis_defs)
  have n: "\<not> (\<exists>res\<in>set (reservations st_booked). reservation_id res = 1 \<and> res_status res = ''held'')"
    unfolding st_booked_eq by simp
  from confirm_reservation_failures [OF pk1, of 601 1] e
  have "fst (confirm_reservation st_held 601 1) = Inl HoldExpired"
    "snd (confirm_reservation st_held 601 1) = st_held"
    by blast+
  then have a: "confirm_reservation st_held 601 1 = (Inl HoldExpired, st_held)"
    by (simp add: prod_eq_iff)
  from confirm_reservation_failures [OF pk2, of 20 1] n
  have "fst (confirm_reservation st_booked 20 1) = Inl ReservationNotFound"
    "snd (confirm_reservation st_booked 20 1) = st_booked"
    by blast+
  then have b: "confirm_reservation st_booked 20 1 = (Inl ReservationNotFound, st_booked)"
    by (simp add: prod_eq_iff)
  from pk1 pk2 a b show ?thesis by blast
qed

text \<open>
  Claim C7 on the scenario: in \<open>st_race\<close> the held seats of reservation 2 are 1 and 2
  and seat 1 is booked; in \<open>st_held\<close> the held seats of reservation 1 are free.
\<close>

theorem confirm_reservation_commit_witness:
  "held_seats st_race 100 1 2 = [1, 2] \<and>
   confirm_reservation st_race 100 2 = (Inl SeatConflict, st_race) \<and>
   held_seats st_held 10 1 1 = [2, 1] \<and>
   fst (confirm_reservation st_held 10 1) = Inr (''confirmed'', 1) \<and>
   map (\<lambda>b. (bs_showtime_id b, bs_seat_id b, bs_reservation_id b))
     (booked_seats (snd (confirm_reservation st_held 10 1))) = [(1, 2, 1), (1, 1, 1)] \<and>
   map res_status (reservations (snd (confirm_reservation st_held 10 1))) = [''confirmed''] \<and>
   held_ids (snd (confirm_reservation st_held 10 1)) 10 1 = {}"
proof -
  let ?r2 = "\<lparr>reservation_id = 2, user_id = None, res_showtime_id = 1, res_status = ''held'',
          total_price = 0, expires_at = Some 700\<rparr>"
  let ?r1 = "\<lparr>reservation_id = 1, user_id = None, res_showtime_id = 1, res_status = ''held'',
          total_price = 0, expires_at = Some 600\<rparr>"
  have race: "confirm_reservation st_race 100 2 = (Inl SeatConflict, st_race)"
  proof -
    have pk: "distinct (map reservation_id (reservations st_race))"
      by (simp add: st_race_def)
    have res: "?r2 \<in> set (reservations st_race)" "reservation_id ?r2 = 2"
      "res_status ?r2 = ''held''"
      by (simp_all add: st_race_def)
    have held: "[1, 2] = held_seats st_race 100 (res_showtime_id ?r2) 2" "[1, 2 :: int] \<noteq> []"
      by (simp_all add: st_race_held)
    have conflict: "\<exists>sid\<in>set [1, 2]. \<exists>b\<in>set (booked_seats st_race).
          bs_showtime_id b = res_showtime_id ?r2 \<and> bs_seat_id b = sid"
      by (simp add: st_race_def)
    from confirm_reservation_commit [OF pk res held] conflict show ?thesis by blast
  qed
  have ok: "fst (confirm_reservation st_held 10 1) = Inr (''confirmed'', 1) \<and>
   map (\<lambda>b. (bs_showtime_id b, bs_seat_id b, bs_reservation_id b))
     (booked_seats (snd (confirm_reservation st_held 10 1))) = [(1, 2, 1), (1, 1, 1)] \<and>
   map res_status (reservations (snd (confirm_reservation st_held 10 1))) = [''confirmed''] \<and>
   held_ids (snd (confirm_reservation st_held 10 1)) 10 1 = {}"
  proof -
    have pk: "distinct (map reservation_id (reservations st_held))"
      unfolding st_held_eq by simp
    have res: "?r1 \<in> set (reservations st_held)" "reservation_id ?r1 = 1"
      "res_status ?r1 = ''held''"
      unfolding st_held_eq by simp_all
    have held: "[2, 1] = held_seats st_held 10 (res_showtime_id ?r1) 1" "[2, 1 :: int] \<noteq> []"
      by (simp_all add: st_held_held)
    have free: "\<not> (\<exists>sid\<in>set [2, 1]. \<exists>b\<in>set (booked_seats st_held).
          bs_showtime_id b = res_showtime_id ?r1 \<and> bs_seat_id b = sid)"
      unfolding st_held_eq by simp
    from confirm_reservation_commit [OF pk res held] free
    obtain s' new r r' where
      c: "confirm_reservation st_held 10 1 = (Inr (''confirmed'', 1), s')" and
      b: "booked_seats s' = booked_seats st_held @ new"
        "map (\<lambda>b. (bs_showtime_id b, bs_seat_id b, bs_reservation_id b)) new
           = map (\<lambda>sid. (res_showtime_id ?r1, sid, 1)) [2, 1]" and
      rs: "reservations s' =
             map (\<lambda>x. if reservation_id x = 1 then x\<lparr>res_status := ''confirmed''\<rparr> else x)
               (reservations st_held)" and
      rc: "redis_client s' = Some r'" "redis_client st_held = Some r"
        "\<forall>now' k. redis_get r' now' k =
           (if k \<in> Pair (res_showtime_id ?r1) ` set [2, 1] then None else redis_get r now' k)"
      by blast
    have "map (\<lambda>b. (bs_showtime_id b, bs_seat_id b, bs_reservation_id b)) (booked_seats s')
        = [(1, 2, 1), (1, 1, 1)]"
      unfolding b(1) using b(2) by (simp add: st_held_eq)
    moreover have "map res_status (reservations s') = [''confirmed'']"
      unfolding rs by (simp add: st_held_eq)
    moreover have "held_ids s' 10 1 = {}"
    proof -
      have "sid \<notin> held_ids s' 10 1" for sid
      proof -
        from rc(2) have r: "r = [\<lparr>hold_showtime = 1, hold_seat = 2, hold_value = 1, hold_expires = 600\<rparr>,
              \<lparr>hold_showtime = 1, hold_seat = 1, hold_value = 1, hold_expires = 600\<rparr>]"
          by (simp add: st_held_eq)
        have "redis_get r' 10 (1, sid) = None"
          unfolding rc(3) [rule_format] r by (simp add: redis_defs)
        then show ?thesis by (simp add: held_ids_iff rc(1))
      qed
      then show ?thesis by blast
    qed
    ultimately show ?thesis using c by simp
  qed
  from race ok st_race_held st_held_held show ?thesis by blast
qed

text \<open>
  Claim C5 on the scenario: seats 1 and 2 are held at instant 0; a later request for a
  booked seat fails.
\<close>

theorem hold_seats_success_witness:
  "distinct (map seat_id (seats st_free)) \<and>
   fst (hold_seats st_free 0 1 [1, 2]) = Inr (1, 600) \<and>
   reservations (snd (hold_seats st_free 0 1 [1, 2])) =
     [\<lparr>reservation_id = 1, user_id = None, res_showtime_id = 1, res_status = ''held'',
       total_price = 0, expires_at = Some 600\<rparr>] \<and>
   held_ids (snd (hold_seats st_free 0 1 [1, 2])) 600 1 = {1, 2} \<and>
   held_ids (snd (hold_seats st_free 0 1 [1, 2])) 601 1 = {} \<and>
   hold_seats st_booked 20 1 [1] = (Inl SeatsAlreadyBooked, st_booked)"
proof -
  have pk: "distinct (map seat_id (seats st_free))" by (simp add: scenario_defs)
  have pre: "distinct [1, 2 :: int] \<and> set [1, 2] \<subseteq> seat_id ` set (seats st_free) \<and>
        \<not> (\<exists>sid\<in>set [1, 2]. \<exists>b\<in>set (booked_seats st_free). bs_showtime_id b = 1 \<and> bs_seat_id b = sid) \<and>
        \<not> (\<exists>r. redis_client st_free = Some r \<and> (\<exists>sid\<in>set [1, 2]. redis_get r 0 (1, sid) \<noteq> None))"
    by (simp add: scenario_defs redis_defs)
  from hold_seats_success [OF pk, of 0 1 "[1, 2]"] pre
  obtain v where v: "fst (hold_seats st_free 0 1 [1, 2]) = Inr v" by blast
  obtain rid expiry where ve: "v = (rid, expiry)" by (cases v)
  let ?s' = "snd (hold_seats st_free 0 1 [1, 2])"
  have h: "hold_seats st_free 0 1 [1, 2] = (Inr (rid, expiry), ?s')"
    using v ve by (simp add: prod_eq_iff)
  from hold_seats_success [OF pk, of 0 1 "[1, 2]"] h have
    e: "expiry = 0 + HOLD_TTL_SECONDS" and
    rs: "reservations ?s' = reservations st_free @
          [\<lparr>reservation_id = rid, user_id = None, res_showtime_id = 1, res_status = ''held'',
            total_price = 0, expires_at = Some (0 + HOLD_TTL_SECONDS)\<rparr>]" and
    rc: "\<forall>r. redis_client st_free = Some r \<longrightarrow>
           (\<exists>r'. redis_client ?s' = Some r' \<and>
              (\<forall>now' k. redis_get r' now' k =
                 (if k \<in> Pair 1 ` set [1, 2]
                  then if now' \<le> 0 + HOLD_TTL_SECONDS then Some rid else None
                  else redis_get r now' k)))"
    by blast+
  have rid: "rid = 1" using h hold_free_eq by simp
  from rc obtain r' where r': "redis_client ?s' = Some r'"
    "\<forall>now' k. redis_get r' now' k =
                 (if k \<in> Pair 1 ` set [1, 2]
                  then if now' \<le> 0 + HOLD_TTL_SECONDS then Some rid else None
                  else redis_get [] now' k)"
    by (auto simp add: st_free_def)
  have g: "redis_get r' now' k =
      (if k = (1, 1) \<or> k = (1, 2) then if now' \<le> 600 then Some rid else None else None)"
    for now' k
    unfolding r'(2) [rule_format] by (auto simp add: HOLD_TTL_SECONDS_def redis_get_def)
  have "held_ids ?s' 600 1 = {1, 2}"
    by (auto simp add: held_ids_iff r'(1) g split: if_splits)
  moreover have "held_ids ?s' 601 1 = {}"
    by (auto simp add: held_ids_iff r'(1) g split: if_splits)
  moreover have "reservations ?s' =
     [\<lparr>reservation_id = 1, user_id = None, res_showtime_id = 1, res_status = ''held'',
       total_price = 0, expires_at = Some 600\<rparr>]"
    unfolding rs rid by (simp add: st_free_def HOLD_TTL_SECONDS_def)
  moreover have "fst (hold_seats st_free 0 1 [1, 2]) = Inr (1, 600)"
    using v ve e rid by (simp add: HOLD_TTL_SECONDS_def)
  moreover have "hold_seats st_booked 20 1 [1] = (Inl SeatsAlreadyBooked, st_booked)"
  proof -
    have pkb: "distinct (map seat_id (seats st_booked))"
      unfolding st_booked_eq by (simp add: scenario_defs)
    have "\<not> (\<exists>v. fst (hold_seats st_booked 20 1 [1]) = Inr v)"
      unfolding hold_seats_success [OF pkb, of 20 1 "[1]", THEN conjunct1]
      by (simp add: st_booked_eq)
    then obtain e where e: "fst (hold_seats st_booked 20 1 [1]) = Inl e"
      by (cases "fst (hold_seats st_booked 20 1 [1])") auto
    then have "hold_seats st_booked 20 1 [1] = (Inl e, snd (hold_seats st_booked 20 1 [1]))"
      by (simp add: prod_eq_iff)
    with hold_seats_success [OF pkb, of 20 1 "[1]"]
    have "snd (hold_seats st_booked 20 1 [1]) = st_booked" by blast
    moreover have "fst (hold_seats st_booked 20 1 [1]) = Inl SeatsAlreadyBooked"
      unfolding st_booked_eq by (simp add: hold_seats_def scenario_defs)
    ultimately show ?thesis by (simp add: prod_eq_iff)
  qed
  ultimately show ?thesis using pk by blast
qed

text \<open>
  Without a Redis client the checks pass, the reservation row is created, and no key is
  written.
\<close>

theorem hold_seats_no_redis_counterexample:
  "fst (hold_seats st_no_redis 0 1 [1, 2]) = Inr (1, 600) \<and>
   map reservation_id (reservations (snd (hold_seats st_no_redis 0 1 [1, 2]))) = [1] \<and>
   redis_client (snd (hold_seats st_no_redis 0 1 [1, 2])) = None \<and>
   held_ids (snd (hold_seats st_no_redis 0 1 [1, 2])) 0 1 = {}"
  by (simp add: st_no_redis_def scenario_defs hold_defs redis_defs held_ids_def)

text \<open>
  Claim C4 on the scenario: an unknown seat, a booked seat, a held seat; then, after
  the hold of seats 1 and 2 at instant 0, a request for seats 3 and 2 at instant 599 that
  follows a call of \<open>get_seats\<close>, and a request for seat 2 at instant 599 that follows the
  confirmation.
\<close>

theorem hold_seats_errors_witness:
  "distinct (map seat_id (seats st_free)) \<and>
   hold_seats st_free 0 1 [1, 9] = (Inl InvalidSeatSelection, st_free) \<and>
   hold_seats st_booked 20 1 [1, 3] = (Inl SeatsAlreadyBooked, st_booked) \<and>
   hold_seats st_held 10 1 [2, 3] = (Inl SeatsAlreadyHeld, st_held) \<and>
   redis_client st_free \<noteq> None \<and>
   hold_seats st_free 0 1 [1, 2] = (Inr (1, 600), st_held) \<and>
   calls_before 600 st_held (snd (get_seats st_held 5 1)) \<and>
   hold_seats (snd (get_seats st_held 5 1)) 599 1 [3, 2]
     = (Inl SeatsAlreadyHeld, snd (get_seats st_held 5 1)) \<and>
   calls_before 600 st_held st_booked \<and>
   hold_seats st_booked 599 1 [2] = (Inl SeatsAlreadyBooked, st_booked)"
proof -
  have pk: "distinct (map seat_id (seats st_free))" by (simp add: scenario_defs)
  have pkh: "distinct (map seat_id (seats st_held))"
    unfolding st_held_eq by (simp add: scenario_defs)
  have pkb: "distinct (map seat_id (seats st_booked))"
    unfolding st_booked_eq by (simp add: scenario_defs)
  have a: "hold_seats st_free 0 1 [1, 9] = (Inl InvalidSeatSelection, st_free)"
  proof -
    have "\<not> distinct [1, 9 :: int] \<or> \<not> set [1, 9] \<subseteq> seat_id ` set (seats st_free)"
      by (simp add: scenario_defs)
    with hold_seats_errors [OF pk, of "[1, 9]" 0 1] show ?thesis by blast
  qed
  have b: "hold_seats st_booked 20 1 [1, 3] = (Inl SeatsAlreadyBooked, st_booked)"
  proof -
    have "distinct [1, 3 :: int] \<and> set [1, 3] \<subseteq> seat_id ` set (seats st_booked) \<and>
      (\<exists>sid\<in>set [1, 3]. \<exists>b\<in>set (booked_seats st_booked). bs_showtime_id b = 1 \<and> bs_seat_id b = sid)"
      unfolding st_booked_eq by (simp add: scenario_defs)
    with hold_seats_errors [OF pkb, of "[1, 3]" 20 1] show ?thesis by blast
  qed
  have c: "hold_seats st_held 10 1 [2, 3] = (Inl SeatsAlreadyHeld, st_held)"
  proof -
    have "distinct [2, 3 :: int] \<and> set [2, 3] \<subseteq> seat_id ` set (seats st_held) \<and>
      \<not> (\<exists>sid\<in>set [2, 3]. \<exists>b\<in>set (booked_seats st_held). bs_showtime_id b = 1 \<and> bs_seat_id b = sid) \<and>
      (\<exists>r. redis_client st_held = Some r \<and> (\<exists>sid\<in>set [2, 3]. redis_get r 10 (1, sid) \<noteq> None))"
      unfolding st_held_eq by (simp add: scenario_defs redis_defs)
    with hold_seats_errors [OF pkh, of "[2, 3]" 10 1] show ?thesis by blast
  qed
  have rc: "redis_client st_free \<noteq> None" by (simp add: st_free_def)
  have first: "fst (hold_seats st_free 0 1 [1, 2]) = Inr (1, 600)"
    "snd (hold_seats st_free 0 1 [1, 2]) = st_held"
    using hold_free_eq by simp_all
  have ttl: "(0 :: int) + HOLD_TTL_SECONDS = 600" by (simp add: HOLD_TTL_SECONDS_def)
  have p1: "calls_before 600 st_held (snd (get_seats st_held 5 1))"
    by (rule calls_get_seats [OF calls_none]) simp
  have p2: "calls_before 600 st_held st_booked"
    unfolding st_booked_def by (rule calls_confirm_reservation [OF calls_none]) simp
  note after = hold_seats_errors [OF pk, of "[1, 2]" 0 1, THEN conjunct2, THEN conjunct2,
      THEN conjunct2, rule_format, unfolded first ttl]
  have d: "hold_seats (snd (get_seats st_held 5 1)) 599 1 [3, 2]
     = (Inl SeatsAlreadyHeld, snd (get_seats st_held 5 1))"
  proof -
    have pre: "redis_client st_free \<noteq> None \<and> Inr (1, 600) = Inr (1 :: int, 600 :: int) \<and>
        calls_before 600 st_held (snd (get_seats st_held 5 1)) \<and>
        (2 :: int) \<in> set [1, 2] \<and> (2 :: int) \<in> set [3, 2] \<and> (599 :: int) < 600"
      using rc p1 by simp
    have free: "distinct [3, 2 :: int] \<and>
        set [3, 2] \<subseteq> seat_id ` set (seats (snd (get_seats st_held 5 1))) \<and>
        \<not> (\<exists>sid'\<in>set [3, 2]. \<exists>b\<in>set (booked_seats (snd (get_seats st_held 5 1))).
               bs_showtime_id b = 1 \<and> bs_seat_id b = sid')"
      unfolding get_seats_def snd_conv st_held_eq by (simp add: scenario_defs)
    from after [OF pre] free show ?thesis by blast
  qed
  have e: "hold_seats st_booked 599 1 [2] = (Inl SeatsAlreadyBooked, st_booked)"
  proof -
    have pre: "redis_client st_free \<noteq> None \<and> Inr (1, 600) = Inr (1 :: int, 600 :: int) \<and>
        calls_before 600 st_held st_booked \<and>
        (2 :: int) \<in> set [1, 2] \<and> (2 :: int) \<in> set [2] \<and> (599 :: int) < 600"
      using rc p2 by simp
    from after [OF pre] obtain err where err: "hold_seats st_booked 599 1 [2] = (Inl err, st_booked)"
      by blast
    have "fst (hold_seats st_booked 599 1 [2]) = Inl SeatsAlreadyBooked"
      unfolding st_booked_eq by (simp add: hold_seats_def scenario_defs)
    with err show ?thesis by simp
  qed
  from pk a b c rc hold_free_eq p1 d p2 e show ?thesis by blast
qed

text \<open>
  Seat 1 exists and is booked for showtime 1, and the request that lists it twice fails
  with \<open>InvalidSeatSelection\<close>, not with \<open>SeatsAlreadyBooked\<close>. Without a Redis client a
  second request for seat 1, one second after the first succeeded, succeeds as well.
\<close>

theorem hold_seats_order_counterexample:
  "set [1, 1] \<subseteq> seat_id ` set (seats st_booked) \<and>
   filter (\<lambda>b. bs_showtime_id b = 1 \<and> bs_seat_id b = 1) (booked_seats st_booked) \<noteq> [] \<and>
   hold_seats st_booked 20 1 [1, 1] = (Inl InvalidSeatSelection, st_booked) \<and>
   redis_client st_no_redis = None \<and>
   fst (hold_seats st_no_redis 0 1 [1]) = Inr (1, 600) \<and>
   fst (hold_seats (snd (hold_seats st_no_redis 0 1 [1])) 1 1 [1]) = Inr (2, 601)"
proof -
  have "set [1, 1] \<subseteq> seat_id ` set (seats st_booked)"
    unfolding st_booked_eq by (simp add: scenario_defs)
  moreover have "filter (\<lambda>b. bs_showtime_id b = 1 \<and> bs_seat_id b = 1) (booked_seats st_booked) \<noteq> []"
    unfolding st_booked_eq by simp
  moreover have "hold_seats st_booked 20 1 [1, 1] = (Inl InvalidSeatSelection, st_booked)"
    unfolding st_booked_eq by (simp add: hold_seats_def scenario_defs)
  moreover have "redis_client st_no_redis = None"
    by (simp add: st_no_redis_def)
  moreover have "fst (hold_seats st_no_redis 0 1 [1]) = Inr (1, 600)"
    by (simp add: st_no_redis_def scenario_defs hold_defs redis_defs)
  moreover have "fst (hold_seats (snd (hold_seats st_no_redis 0 1 [1])) 1 1 [1]) = Inr (2, 601)"
    by (simp add: st_no_redis_def scenario_defs hold_defs redis_defs)
  ultimately show ?thesis by blast
qed

text \<open>
  Claim C8 on the scenario: the keys of seats 1 and 2 end at instant 600, so the Hold
  Index holds the same keys at the instants 0 and 600.
\<close>

theorem get_seats_repeatable_witness:
  "redis_client st_held =
     Some [\<lparr>hold_showtime = 1, hold_seat = 2, hold_value = 1, hold_expires = 600\<rparr>,
           \<lparr>hold_showtime = 1, hold_seat = 1, hold_value = 1, hold_expires = 600\<rparr>] \<and>
   snd (get_seats st_held 0 1) = st_held \<and>
   fst (get_seats (snd (get_seats st_held 0 1)) 600 1) = fst (get_seats st_held 0 1) \<and>
   map out_status (fst (get_seats st_held 0 1)) = [''held'', ''held'', ''available'']"
proof -
  have rc: "redis_client st_held =
     Some [\<lparr>hold_showtime = 1, hold_seat = 2, hold_value = 1, hold_expires = 600\<rparr>,
           \<lparr>hold_showtime = 1, hold_seat = 1, hold_value = 1, hold_expires = 600\<rparr>]"
    unfolding st_held_eq by simp
  have h: "\<forall>r e. redis_client st_held = Some r \<and> e \<in> set r \<and> hold_showtime e = 1 \<longrightarrow>
             (live 600 e \<longleftrightarrow> live 0 e)"
    unfolding rc by (auto simp add: live_def)
  have st: "map out_status (fst (get_seats st_held 0 1)) = [''held'', ''held'', ''available'']"
    unfolding st_held_eq
    by (simp add: get_seats_def seat_status_def booked_ids_def held_ids_def redis_defs scenario_defs)
  from get_seats_repeatable [of st_held 0 1 600] h
  have "snd (get_seats st_held 0 1) = st_held"
    "fst (get_seats (snd (get_seats st_held 0 1)) 600 1) = fst (get_seats st_held 0 1)"
    by blast+
  with rc st show ?thesis by blast
qed

lemma st_two_eq:
  "st_two = st_free\<lparr>showtimes :=
     [showtime_1,
      \<lparr>showtime_id = 2, movie_id = 2, auditorium_id = 1, starts_at = 2000, ends_at = 3000,
        base_price = 12\<rparr>]\<rparr>"
  by (simp add: st_two_def create_showtime_def overlaps_def showtime_in_2_def scenario_defs
      next_id_def Let_def)

text \<open>
  Claim C9 on the scenario: a second showtime is created right after the first, in the
  same auditorium; a third that overlaps both is refused, and so is moving the second
  onto the first; moving the first within its own interval is accepted.
\<close>

theorem showtime_writes_no_overlap_witness:
  "distinct (map showtime_id (showtimes st_free)) \<and> no_overlap (showtimes st_free) \<and>
   map showtime_id (showtimes st_two) = [1, 2] \<and> no_overlap (showtimes st_two) \<and>
   create_showtime st_two showtime_in_3 = (None, st_two) \<and>
   update_showtime st_two 2 showtime_in_3 = (None, st_two) \<and>
   fst (update_showtime st_free 1 showtime_in_3) \<noteq> None \<and>
   no_overlap (showtimes (snd (update_showtime st_free 1 showtime_in_3)))"
proof -
  have pk: "distinct (map showtime_id (showtimes st_free))" by (simp add: scenario_defs)
  have inv: "no_overlap (showtimes st_free)" by (simp add: no_overlap_def scenario_defs)
  have ids: "map showtime_id (showtimes st_two) = [1, 2]"
    unfolding st_two_eq by (simp add: scenario_defs)
  then have pk2: "distinct (map showtime_id (showtimes st_two))" by simp
  from showtime_writes_no_overlap [OF pk inv, of showtime_in_2]
  have inv2: "no_overlap (showtimes st_two)" unfolding st_two_def by blast
  have o: "\<exists>x\<in>set (showtimes st_two). auditorium_id x = in_auditorium_id showtime_in_3 \<and>
           starts_at x < in_ends_at showtime_in_3 \<and> ends_at x > in_starts_at showtime_in_3"
    unfolding st_two_eq by (simp add: scenario_defs showtime_in_3_def)
  with showtime_writes_no_overlap [OF pk2 inv2, of showtime_in_3]
  have "fst (create_showtime st_two showtime_in_3) = None"
    "snd (create_showtime st_two showtime_in_3) = st_two"
    by blast+
  then have c: "create_showtime st_two showtime_in_3 = (None, st_two)"
    by (simp add: prod_eq_iff)
  have o2: "\<exists>x\<in>set (showtimes st_two). showtime_id x \<noteq> 2 \<and>
           auditorium_id x = in_auditorium_id showtime_in_3 \<and>
           starts_at x < in_ends_at showtime_in_3 \<and> ends_at x > in_starts_at showtime_in_3"
    unfolding st_two_eq by (simp add: scenario_defs showtime_in_3_def)
  with showtime_writes_no_overlap [OF pk2 inv2, of showtime_in_3 2]
  have "fst (update_showtime st_two 2 showtime_in_3) = None"
    "snd (update_showtime st_two 2 showtime_in_3) = st_two"
    by blast+
  then have u: "update_showtime st_two 2 showtime_in_3 = (None, st_two)"
    by (simp add: prod_eq_iff)
  have g: "get_showtime st_free 1 \<noteq> None"
    by (simp add: get_showtime_def scenario_defs)
  have o3: "\<not> (\<exists>x\<in>set (showtimes st_free). showtime_id x \<noteq> 1 \<and>
           auditorium_id x = in_auditorium_id showtime_in_3 \<and>
           starts_at x < in_ends_at showtime_in_3 \<and> ends_at x > in_starts_at showtime_in_3)"
    by (simp add: scenario_defs)
  from showtime_writes_no_overlap [OF pk inv, of showtime_in_3 1] g o3
  have "fst (update_showtime st_free 1 showtime_in_3) \<noteq> None"
    "no_overlap (showtimes (snd (update_showtime st_free 1 showtime_in_3)))"
    by blast+
  with pk inv ids inv2 c u show ?thesis by blast
qed

text \<open>
  No showtime has id 9 and no showtime overlaps the new interval, and
  \<open>update_showtime\<close> returns \<open>None\<close>.
\<close>

theorem update_showtime_missing_counterexample:
  "get_showtime st_free 9 = None \<and>
   update_showtime st_free 9 showtime_in_2 = (None, st_free) \<and>
   \<not> (\<exists>x\<in>set (showtimes st_free). showtime_id x \<noteq> 9 \<and>
         auditorium_id x = in_auditorium_id showtime_in_2 \<and>
         starts_at x < in_ends_at showtime_in_2 \<and> ends_at x > in_starts_at showtime_in_2)"
  by (simp add: update_showtime_def get_showtime_def scenario_defs showtime_in_2_def)

text \<open>
  Claim C2, evaluated. The response of \<open>get_seats\<close> has one entry per row of the seat
  table, in order, whatever the showtime: the seats read are all rows, not those of the
  auditorium of the showtime. In the scenario showtime 1 is in auditorium 1 and seat 3
  in auditorium 2, and the response for showtime 1 has an entry for seat 3.
\<close>

theorem get_seats_other_auditorium:
  "map out_id (fst (get_seats s now t)) = map seat_id (seats s) \<and>
   get_showtime st_free 1 = Some showtime_1 \<and> auditorium_id showtime_1 = 1 \<and>
   get_seat st_free 3 = Some seat_3 \<and> seat_auditorium_id seat_3 = 2 \<and>
   map out_id (fst (get_seats st_free 0 1)) = [1, 2, 3]"
  by (simp add: get_showtime_def get_seat_def get_seats_def seat_status_def scenario_defs
      comp_def)

end
